theory Spec2Isabelle
  imports Complex_Main "HOL-Library.Log_Nat"
begin

section \<open>Value model\<close>

text \<open>
  The interpreter is TypeScript: every value is a reference to a heap object
  \<^verbatim>\<open>{ type: <tag>, value: <payload> }\<close>, or the host value \<^verbatim>\<open>undefined\<close> where
  an array or record is read outside its bounds.  Objects other than reference cells
  are never mutated after construction, so an object is represented by its identity
  (a number handed out by the allocator of the store) together with its contents;
  the slot of a reference cell lives in the store, indexed by the cell's identity.

  Numbers are host doubles.  The payload of an integer object is a double whose value
  is an integer, a zero of either sign, an infinity, or not a number: \<open>Fin n\<close> is the
  double whose value is the integer \<open>n\<close> (\<open>Fin 0\<close> is the positive zero) and \<open>NegZero\<close> is
  the negative zero.  Not every integer is the value of a double; the reader and the
  arithmetic below produce \<open>Fin n\<close> only for those that are.
\<close>

datatype jsnum = Fin int | NegZero | PosInf | NegInf | NaN

datatype mal = Undefined | Obj nat shape
and shape =
    SNil
  | SBool bool
  | SInt jsnum
  | SStr string
  | SSym string
  | SKey string
  | SList "mal list"
  | SVec "mal list"
  | SMap "(string \<times> mal) list"
  | SAtom
  | SFn fn
and fn =
    Native string
  | Closure "nat list" mal mal

datatype error =
    JsTypeError
  | TypeMismatch string
  | UnboundSymbol string
  | Thrown mal
  | StackOverflow
  | OutOfFuel
  | Unmodelled string

record store =
  frames :: "nat \<Rightarrow> (string \<rightharpoonup> mal)"
  cells :: "nat \<Rightarrow> mal"
  next_id :: nat

type_synonym 'a result = "error + 'a \<times> store"

text \<open>
  Modelled from the spec: the declarations of the variants are in the module
  \<^verbatim>\<open>types\<close>, which is not among the sources.  \<open>type_tag\<close> is the \<^verbatim>\<open>type\<close> field of an
  object.  The tags \<^verbatim>\<open>nil\<close>, \<^verbatim>\<open>bool\<close>, \<^verbatim>\<open>sym\<close>, \<^verbatim>\<open>key\<close>, \<^verbatim>\<open>list\<close>, \<^verbatim>\<open>vec\<close>, \<^verbatim>\<open>map\<close> and \<^verbatim>\<open>atom\<close>
  are the ones the sources compare with; integers, strings and functions are never
  tested by tag there, and their tags are named after their constructors.
\<close>

fun type_tag :: "shape \<Rightarrow> string" where
  "type_tag SNil = ''nil''"
| "type_tag (SBool b) = ''bool''"
| "type_tag (SInt n) = ''int''"
| "type_tag (SStr s) = ''str''"
| "type_tag (SSym s) = ''sym''"
| "type_tag (SKey s) = ''key''"
| "type_tag (SList xs) = ''list''"
| "type_tag (SVec xs) = ''vec''"
| "type_tag (SMap m) = ''map''"
| "type_tag SAtom = ''atom''"
| "type_tag (SFn f) = ''fn''"

text \<open>
  Modelled from the spec: the \<^verbatim>\<open>value\<close> field of an object, as far as the host's
  \<^verbatim>\<open>===\<close> and the evaluator's \<^verbatim>\<open>switch\<close> can observe it: a primitive (\<^verbatim>\<open>null\<close> for nil,
  which is what the test \<^verbatim>\<open>cond !== null\<close> of the evaluator is written for; the text of
  a keyword includes its leading marker), a reference to the array, record or function
  object owned by the wrapper (identified with the wrapper), or, for a reference cell,
  the reference held in its slot.
\<close>

datatype jsval = JNull | JBool bool | JNum jsnum | JStr string | JRef nat | JMal mal

fun value_field :: "store \<Rightarrow> nat \<Rightarrow> shape \<Rightarrow> jsval" where
  "value_field st i SNil = JNull"
| "value_field st i (SBool b) = JBool b"
| "value_field st i (SInt n) = JNum n"
| "value_field st i (SStr s) = JStr s"
| "value_field st i (SSym s) = JStr s"
| "value_field st i (SKey s) = JStr s"
| "value_field st i (SList xs) = JRef i"
| "value_field st i (SVec xs) = JRef i"
| "value_field st i (SMap m) = JRef i"
| "value_field st i SAtom = JMal (cells st i)"
| "value_field st i (SFn f) = JRef i"

fun same_ref :: "mal \<Rightarrow> mal \<Rightarrow> bool" where
  "same_ref Undefined Undefined = True"
| "same_ref (Obj i a) (Obj j b) = (i = j)"
| "same_ref a b = False"

text \<open>The two zeros are the same number to the host's comparisons.\<close>

fun plain :: "jsnum \<Rightarrow> jsnum" where
  "plain NegZero = Fin 0"
| "plain x = x"

fun strict_eq :: "jsval \<Rightarrow> jsval \<Rightarrow> bool" where
  "strict_eq JNull JNull = True"
| "strict_eq (JBool a) (JBool b) = (a = b)"
| "strict_eq (JNum a) (JNum b) = (a \<noteq> NaN \<and> plain a = plain b)"
| "strict_eq (JStr a) (JStr b) = (a = b)"
| "strict_eq (JRef a) (JRef b) = (a = b)"
| "strict_eq (JMal a) (JMal b) = same_ref a b"
| "strict_eq a b = False"

subsection \<open>Constructors and checked projections of the types module\<close>

text \<open>
  Modelled from the spec: the constructors \<^verbatim>\<open>t.nil\<close>, \<^verbatim>\<open>t.bool\<close>, \<^verbatim>\<open>t.int\<close>, \<^verbatim>\<open>t.str\<close>,
  \<^verbatim>\<open>t.list\<close>, \<^verbatim>\<open>t.vec\<close>, \<^verbatim>\<open>t.fn\<close>, ... of the absent module \<^verbatim>\<open>types\<close>.  Each call makes a
  new object, which \<open>alloc\<close> gives the next free identity; \<open>ret\<close> returns it.
\<close>

definition alloc :: "shape \<Rightarrow> store \<Rightarrow> mal \<times> store" where
  "alloc sh st = (Obj (next_id st) sh, st\<lparr>next_id := next_id st + 1\<rparr>)"

definition ret :: "shape \<Rightarrow> store \<Rightarrow> mal result" where
  "ret sh st = Inr (alloc sh st)"

text \<open>
  Modelled from the spec: the checked projection \<^verbatim>\<open>t.toInt\<close> of the absent module
  \<^verbatim>\<open>types\<close>: the number of an integer, a type error on every other value.
\<close>

fun toInt :: "mal \<Rightarrow> error + jsnum" where
  "toInt Undefined = Inl JsTypeError"
| "toInt (Obj i (SInt n)) = Inr n"
| "toInt (Obj i sh) = Inl (TypeMismatch ''int'')"

text \<open>
  Modelled from the spec: \<^verbatim>\<open>t.isListOrVec\<close> of the absent module \<^verbatim>\<open>types\<close>, followed
  by the read of \<^verbatim>\<open>.value\<close>: the elements of a list or vector, a type error on every
  other value.
\<close>

fun isListOrVec :: "mal \<Rightarrow> error + mal list" where
  "isListOrVec Undefined = Inl JsTypeError"
| "isListOrVec (Obj i (SList xs)) = Inr xs"
| "isListOrVec (Obj i (SVec xs)) = Inr xs"
| "isListOrVec (Obj i sh) = Inl (TypeMismatch ''list or vector'')"

text \<open>Reading position \<open>i\<close> of a host array: \<^verbatim>\<open>undefined\<close> outside the bounds.\<close>

definition idx :: "mal list \<Rightarrow> nat \<Rightarrow> mal" where
  "idx xs i = (if i < length xs then xs ! i else Undefined)"

text \<open>
  Reading a key of a host record: \<^verbatim>\<open>undefined\<close> when absent.  Only the record's own
  keys are considered: an encoded map key is taken never to name a property that host
  records inherit.
\<close>

definition field :: "(string \<times> mal) list \<Rightarrow> string \<Rightarrow> mal" where
  "field m k = (case map_of m k of None \<Rightarrow> Undefined | Some v \<Rightarrow> v)"

section \<open>Primitive library\<close>

subsection \<open>Structural equality\<close>

definition is_seq :: "shape \<Rightarrow> bool" where
  "is_seq sh = (type_tag sh = ''vec'' \<or> type_tag sh = ''list'')"

fun items :: "shape \<Rightarrow> mal list" where
  "items (SList xs) = xs"
| "items (SVec xs) = xs"
| "items sh = []"

fun entries :: "shape \<Rightarrow> (string \<times> mal) list" where
  "entries (SMap m) = m"
| "entries sh = []"

function mal_eq :: "store \<Rightarrow> mal \<Rightarrow> mal \<Rightarrow> error + bool"
  and every_eq :: "store \<Rightarrow> mal list \<Rightarrow> mal list \<Rightarrow> error + bool"
  and every_key :: "store \<Rightarrow> (string \<times> mal) list \<Rightarrow> (string \<times> mal) list \<Rightarrow> error + bool"
where
  "mal_eq st Undefined b = Inl JsTypeError"
| "mal_eq st (Obj i sa) Undefined = Inl JsTypeError"
| "mal_eq st (Obj i sa) (Obj j sb) =
     (if is_seq sa \<and> is_seq sb then
        (if length (items sa) \<noteq> length (items sb) then Inr False
         else every_eq st (items sa) (items sb))
      else if type_tag sa = ''map'' \<and> type_tag sb = ''map'' then
        (if length (map fst (entries sa)) \<noteq> length (map fst (entries sb)) then Inr False
         else every_key st (entries sa) (entries sb))
      else if type_tag sa \<noteq> type_tag sb then Inr False
      else Inr (strict_eq (value_field st i sa) (value_field st j sb)))"
| "every_eq st [] bs = Inr True"
| "every_eq st (a # as) bs =
     (case mal_eq st a (idx bs 0) of
        Inl e \<Rightarrow> Inl e
      | Inr r \<Rightarrow> if r then every_eq st as (tl bs) else Inr False)"
| "every_key st [] bm = Inr True"
| "every_key st ((k, a) # rest) bm =
     (case mal_eq st a (field bm k) of
        Inl e \<Rightarrow> Inl e
      | Inr r \<Rightarrow> if r then every_key st rest bm else Inr False)"
  by pat_completeness auto
termination
proof (relation "measure (\<lambda>x. case x of
          Inl (st, a, b) \<Rightarrow> 2 * size a
        | Inr (Inl (st, as, bs)) \<Rightarrow> 2 * size_list size as + 1
        | Inr (Inr (st, m, bm)) \<Rightarrow> 2 * size_list (size_prod (\<lambda>_. 0) size) m + 1)", goal_cases)
  case 1 show ?case by simp
next
  case (2 st i sa j sb)
  have "size_list size (items sa) \<le> size sa" by (cases sa) auto
  then show ?case by simp
next
  case (3 st i sa j sb)
  have "size_list (size_prod (\<lambda>_. 0) size) (entries sa) \<le> size sa" by (cases sa) auto
  then show ?case by simp
qed simp_all


text \<open>
  \<^verbatim>\<open>ns['=']\<close>.  The conjunctions of the source short-circuit, so \<^verbatim>\<open>b.type\<close> is
  read only after the test on \<^verbatim>\<open>a.type\<close> succeeded, or in the last comparison of the
  tags; a read of \<^verbatim>\<open>.type\<close> on \<^verbatim>\<open>undefined\<close> is a host TypeError.  \<open>mal_eq\<close> is the
  boolean carried by the result; \<open>ns_eq\<close> wraps it with \<^verbatim>\<open>t.bool\<close>.
\<close>

definition bnd :: "error + 'a \<Rightarrow> ('a \<Rightarrow> error + 'b) \<Rightarrow> error + 'b" where
  "bnd x f = (case x of Inl e \<Rightarrow> Inl e | Inr v \<Rightarrow> f v)"

definition ns_eq :: "mal list \<Rightarrow> store \<Rightarrow> mal result" where
  "ns_eq args st = bnd (mal_eq st (idx args 0) (idx args 1)) (\<lambda>r. ret (SBool r) st)"

subsection \<open>Arithmetic and comparisons\<close>

text \<open>
  The host computes on doubles (IEEE 754 binary64): the result of an operation is the
  exact result rounded to the nearest double, to the one with the even mantissa when
  two are equally near, and to an infinity from \<open>2^1024 - 2^970\<close> on.  A double of
  magnitude at least \<open>2^-1022\<close> is \<open>m * 2^k\<close> with \<open>2^52 \<le> m < 2^53\<close>; below that, \<open>k\<close>
  stays \<open>-1074\<close>.

  \<open>pow2 k\<close> is \<open>2^k\<close> for \<open>k \<ge> 0\<close> and \<open>1\<close> otherwise, so that \<open>2^k\<close> for any integer \<open>k\<close> is
  the quotient of \<open>pow2 k\<close> by \<open>pow2 (- k)\<close>.  For positive integers \<open>n\<close> and \<open>d\<close>:
  \<open>quot_exp n d\<close> is the \<open>e\<close> with \<open>2^e \<le> n / d < 2^(e+1)\<close>, found from the numbers of
  binary digits of \<open>n\<close> and \<open>d\<close> (\<open>bitlen\<close>), \<open>round_even n d\<close> is the integer
  nearest to \<open>n / d\<close>, and \<open>fl_quot n d\<close> is the double nearest to \<open>n / d\<close>, given by its
  mantissa and exponent, before the test for overflow.
\<close>

definition pow2 :: "int \<Rightarrow> int" where
  "pow2 k = 2 ^ nat k"

definition quot_exp :: "int \<Rightarrow> int \<Rightarrow> int" where
  "quot_exp n d =
     (let e = bitlen n - bitlen d in if d * pow2 e \<le> n * pow2 (- e) then e else e - 1)"

definition round_even :: "int \<Rightarrow> int \<Rightarrow> int" where
  "round_even n d =
     (let q = n div d; r = n mod d in if d < 2 * r \<or> (2 * r = d \<and> odd q) then q + 1 else q)"

definition fl_quot :: "int \<Rightarrow> int \<Rightarrow> int \<times> int" where
  "fl_quot n d =
     (let k = max (quot_exp n d) (- 1022) - 52
      in (round_even (n * pow2 (- k)) (d * pow2 k), k))"

text \<open>The integers next below and next above \<open>m * 2^k\<close>.\<close>

definition floor_of :: "int \<times> int \<Rightarrow> int" where
  "floor_of x = (case x of (m, k) \<Rightarrow> (m * pow2 k) div pow2 (- k))"

definition ceil_of :: "int \<times> int \<Rightarrow> int" where
  "ceil_of x = (case x of (m, k) \<Rightarrow> - ((- (m * pow2 k)) div pow2 (- k)))"

definition signed_zero :: "bool \<Rightarrow> jsnum" where
  "signed_zero neg = (if neg then NegZero else Fin 0)"

definition signed_inf :: "bool \<Rightarrow> jsnum" where
  "signed_inf neg = (if neg then NegInf else PosInf)"

text \<open>
  \<^verbatim>\<open>Math.floor\<close> of the double nearest to \<open>n / d\<close>, or to \<open>- (n / d)\<close> when \<open>neg\<close>, for
  positive integers \<open>n\<close> and \<open>d\<close>.  With \<open>d = 1\<close> this is the double nearest to the
  integer \<open>n\<close> or \<open>- n\<close> (\<open>js_round\<close>): that double is an integer, which the floor leaves
  alone.
\<close>

definition floor_fl :: "bool \<Rightarrow> int \<Rightarrow> int \<Rightarrow> jsnum" where
  "floor_fl neg n d =
     (let x = fl_quot n d in
      if 2 ^ 1024 \<le> floor_of x then signed_inf neg
      else if neg then Fin (- ceil_of x) else Fin (floor_of x))"

definition js_round :: "bool \<Rightarrow> int \<Rightarrow> jsnum" where
  "js_round neg n = floor_fl neg n 1"

text \<open>The double nearest to an integer.\<close>

definition js_of_int :: "int \<Rightarrow> jsnum" where
  "js_of_int c = (if c = 0 then Fin 0 else js_round (c < 0) \<bar>c\<bar>)"

fun js_negative :: "jsnum \<Rightarrow> bool" where
  "js_negative (Fin a) = (a < 0)"
| "js_negative NegZero = True"
| "js_negative NegInf = True"
| "js_negative x = False"

fun js_zero :: "jsnum \<Rightarrow> bool" where
  "js_zero (Fin a) = (a = 0)"
| "js_zero NegZero = True"
| "js_zero x = False"

fun js_inf :: "jsnum \<Rightarrow> bool" where
  "js_inf PosInf = True"
| "js_inf NegInf = True"
| "js_inf x = False"

text \<open>The value of a finite number.\<close>

fun js_int :: "jsnum \<Rightarrow> int" where
  "js_int (Fin a) = a"
| "js_int x = 0"

fun js_neg :: "jsnum \<Rightarrow> jsnum" where
  "js_neg (Fin a) = (if a = 0 then NegZero else Fin (- a))"
| "js_neg NegZero = Fin 0"
| "js_neg PosInf = NegInf"
| "js_neg NegInf = PosInf"
| "js_neg NaN = NaN"

text \<open>
  \<^verbatim>\<open>a + b\<close>: opposite infinities have no sum; a sum that is exactly zero is the positive
  zero unless both summands are the negative zero; every other sum of finite numbers
  is rounded.  \<^verbatim>\<open>a - b\<close> is \<^verbatim>\<open>a + (- b)\<close>.
\<close>

definition js_add :: "jsnum \<Rightarrow> jsnum \<Rightarrow> jsnum" where
  "js_add a b =
     (if a = NaN \<or> b = NaN then NaN
      else if js_inf a then (if js_inf b \<and> a \<noteq> b then NaN else a)
      else if js_inf b then b
      else if js_zero a \<and> js_zero b then signed_zero (js_negative a \<and> js_negative b)
      else js_of_int (js_int a + js_int b))"

definition js_sub :: "jsnum \<Rightarrow> jsnum \<Rightarrow> jsnum" where
  "js_sub a b = js_add a (js_neg b)"

text \<open>
  \<^verbatim>\<open>a * b\<close>: the sign of the product is the product of the signs, also when it is a
  zero or an infinity; zero times an infinity is not a number.
\<close>

definition js_mul :: "jsnum \<Rightarrow> jsnum \<Rightarrow> jsnum" where
  "js_mul a b =
     (let neg = (js_negative a \<noteq> js_negative b) in
      if a = NaN \<or> b = NaN then NaN
      else if js_inf a \<or> js_inf b then (if js_zero a \<or> js_zero b then NaN else signed_inf neg)
      else if js_zero a \<or> js_zero b then signed_zero neg
      else js_round neg (\<bar>js_int a\<bar> * \<bar>js_int b\<bar>))"

text \<open>
  \<^verbatim>\<open>Math.floor(a / b)\<close>: the quotient is rounded to a double first and the floor is taken
  of that double.  An infinity over an infinity and a zero over a zero are not numbers;
  a number over a zero and an infinity over a number are infinities; a zero over a
  number and a number over an infinity are zeros, of the sign of the quotient, and the
  floor keeps them.
\<close>

definition js_floor_div :: "jsnum \<Rightarrow> jsnum \<Rightarrow> jsnum" where
  "js_floor_div a b =
     (let neg = (js_negative a \<noteq> js_negative b) in
      if a = NaN \<or> b = NaN then NaN
      else if js_inf a then (if js_inf b then NaN else signed_inf neg)
      else if js_inf b then signed_zero neg
      else if js_zero b then (if js_zero a then NaN else signed_inf neg)
      else if js_zero a then signed_zero neg
      else floor_fl neg \<bar>js_int a\<bar> \<bar>js_int b\<bar>)"

fun lt_plain :: "jsnum \<Rightarrow> jsnum \<Rightarrow> bool" where
  "lt_plain (Fin a) (Fin b) = (a < b)"
| "lt_plain NaN b = False"
| "lt_plain a NaN = False"
| "lt_plain NegInf b = (b \<noteq> NegInf)"
| "lt_plain a PosInf = (a \<noteq> PosInf)"
| "lt_plain a b = False"

definition js_lt :: "jsnum \<Rightarrow> jsnum \<Rightarrow> bool" where
  "js_lt a b = lt_plain (plain a) (plain b)"

definition js_le :: "jsnum \<Rightarrow> jsnum \<Rightarrow> bool" where
  "js_le a b = (js_lt a b \<or> (a \<noteq> NaN \<and> plain a = plain b))"

definition arith :: "(jsnum \<Rightarrow> jsnum \<Rightarrow> jsnum) \<Rightarrow> mal list \<Rightarrow> store \<Rightarrow> mal result" where
  "arith f args st =
     bnd (toInt (idx args 0)) (\<lambda>a. bnd (toInt (idx args 1)) (\<lambda>b. ret (SInt (f a b)) st))"

definition compare :: "(jsnum \<Rightarrow> jsnum \<Rightarrow> bool) \<Rightarrow> mal list \<Rightarrow> store \<Rightarrow> mal result" where
  "compare f args st =
     bnd (toInt (idx args 0)) (\<lambda>a. bnd (toInt (idx args 1)) (\<lambda>b. ret (SBool (f a b)) st))"

definition ns_add :: "mal list \<Rightarrow> store \<Rightarrow> mal result" where
  "ns_add = arith js_add"

definition ns_sub :: "mal list \<Rightarrow> store \<Rightarrow> mal result" where
  "ns_sub = arith js_sub"

definition ns_mul :: "mal list \<Rightarrow> store \<Rightarrow> mal result" where
  "ns_mul = arith js_mul"

definition ns_div :: "mal list \<Rightarrow> store \<Rightarrow> mal result" where
  "ns_div = arith js_floor_div"

definition ns_gt :: "mal list \<Rightarrow> store \<Rightarrow> mal result" where
  "ns_gt = compare (\<lambda>a b. js_lt b a)"

definition ns_ge :: "mal list \<Rightarrow> store \<Rightarrow> mal result" where
  "ns_ge = compare (\<lambda>a b. js_le b a)"

definition ns_lt :: "mal list \<Rightarrow> store \<Rightarrow> mal result" where
  "ns_lt = compare js_lt"

definition ns_le :: "mal list \<Rightarrow> store \<Rightarrow> mal result" where
  "ns_le = compare js_le"

subsection \<open>Sequences\<close>

text \<open>The \<^verbatim>\<open>type\<close> field of a reference; reading it through \<^verbatim>\<open>undefined\<close> fails.\<close>

fun type_of :: "mal \<Rightarrow> error + string" where
  "type_of Undefined = Inl JsTypeError"
| "type_of (Obj i sh) = Inr (type_tag sh)"

definition type_is :: "string \<Rightarrow> mal list \<Rightarrow> store \<Rightarrow> mal result" where
  "type_is tag args st = bnd (type_of (idx args 0)) (\<lambda>t. ret (SBool (t = tag)) st)"

text \<open>
  Modelled from the spec: \<^verbatim>\<open>t.isList\<close> of the absent module \<^verbatim>\<open>types\<close>, followed by the
  read of \<^verbatim>\<open>.value\<close>; it accepts a list only.
\<close>

fun isList :: "mal \<Rightarrow> error + mal list" where
  "isList Undefined = Inl JsTypeError"
| "isList (Obj i (SList xs)) = Inr xs"
| "isList (Obj i sh) = Inl (TypeMismatch ''list'')"

text \<open>
  Modelled from the spec: \<^verbatim>\<open>t.isSym\<close> of the absent module \<^verbatim>\<open>types\<close>; the result is
  the name of the symbol.
\<close>

fun isSym :: "mal \<Rightarrow> error + string" where
  "isSym Undefined = Inl JsTypeError"
| "isSym (Obj i (SSym s)) = Inr s"
| "isSym (Obj i sh) = Inl (TypeMismatch ''symbol'')"

text \<open>Modelled from the spec: \<^verbatim>\<open>t.isFn\<close> of the absent module \<^verbatim>\<open>types\<close>.\<close>

fun isFn :: "mal \<Rightarrow> error + fn" where
  "isFn Undefined = Inl JsTypeError"
| "isFn (Obj i (SFn f)) = Inr f"
| "isFn (Obj i sh) = Inl (TypeMismatch ''function'')"

text \<open>
  Modelled from the spec: \<^verbatim>\<open>t.isAtom\<close> of the absent module \<^verbatim>\<open>types\<close>; the result is
  the identity of the cell.
\<close>

fun isAtom :: "mal \<Rightarrow> error + nat" where
  "isAtom Undefined = Inl JsTypeError"
| "isAtom (Obj i SAtom) = Inr i"
| "isAtom (Obj i sh) = Inl (TypeMismatch ''atom'')"

definition ns_throw :: "mal list \<Rightarrow> store \<Rightarrow> mal result" where
  "ns_throw args st = Inl (Thrown (idx args 0))"

definition ns_cons :: "mal list \<Rightarrow> store \<Rightarrow> mal result" where
  "ns_cons args st = bnd (isListOrVec (idx args 1)) (\<lambda>xs. ret (SList (idx args 0 # xs)) st)"

fun concatted :: "mal list \<Rightarrow> error + mal list" where
  "concatted [] = Inr []"
| "concatted (a # as) = bnd (isListOrVec a) (\<lambda>xs. bnd (concatted as) (\<lambda>ys. Inr (xs @ ys)))"

definition ns_concat :: "mal list \<Rightarrow> store \<Rightarrow> mal result" where
  "ns_concat args st = bnd (concatted args) (\<lambda>xs. ret (SList xs) st)"

definition ns_list :: "mal list \<Rightarrow> store \<Rightarrow> mal result" where
  "ns_list args st = ret (SList args) st"

definition ns_empty :: "mal list \<Rightarrow> store \<Rightarrow> mal result" where
  "ns_empty args st = bnd (isListOrVec (idx args 0)) (\<lambda>xs. ret (SBool (length xs = 0)) st)"

text \<open>\<^verbatim>\<open>ns.count\<close>: whatever the projection throws is caught and answered with zero.\<close>

definition ns_count :: "mal list \<Rightarrow> store \<Rightarrow> mal result" where
  "ns_count args st =
     (case isListOrVec (idx args 0) of
        Inr xs \<Rightarrow> ret (SInt (Fin (int (length xs)))) st
      | Inl e \<Rightarrow> ret (SInt (Fin 0)) st)"

text \<open>
  \<^verbatim>\<open>ns.nth\<close>: only \<^verbatim>\<open>i >= values.length\<close> is rejected; any other index is read from
  the array, which yields \<^verbatim>\<open>undefined\<close> when it is not a position of the array.
\<close>

fun array_at :: "mal list \<Rightarrow> jsnum \<Rightarrow> mal" where
  "array_at xs (Fin i) = (if 0 \<le> i then idx xs (nat i) else Undefined)"
| "array_at xs NegZero = idx xs 0"
| "array_at xs n = Undefined"

definition ns_nth :: "mal list \<Rightarrow> store \<Rightarrow> mal result" where
  "ns_nth args st =
     bnd (isListOrVec (idx args 0)) (\<lambda>values.
     bnd (toInt (idx args 1)) (\<lambda>i.
       if js_le (Fin (int (length values))) i
       then Inl (Thrown (fst (alloc (SStr ''nth: index out of range'') st)))
       else Inr (array_at values i, st)))"

definition ns_first :: "mal list \<Rightarrow> store \<Rightarrow> mal result" where
  "ns_first args st =
     bnd (type_of (idx args 0)) (\<lambda>t.
       if t = ''nil'' then ret SNil st
       else bnd (isListOrVec (idx args 0)) (\<lambda>values.
         if length values = 0 then ret SNil st else Inr (idx values 0, st)))"

definition ns_rest :: "mal list \<Rightarrow> store \<Rightarrow> mal result" where
  "ns_rest args st =
     bnd (type_of (idx args 0)) (\<lambda>t.
       if t = ''nil'' then ret (SList []) st
       else bnd (isListOrVec (idx args 0)) (\<lambda>values. ret (SList (drop 1 values)) st))"

definition ns_sequential :: "mal list \<Rightarrow> store \<Rightarrow> mal result" where
  "ns_sequential args st =
     bnd (type_of (idx args 0)) (\<lambda>t. ret (SBool (t = ''list'' \<or> t = ''vec'')) st)"

definition ns_vector :: "mal list \<Rightarrow> store \<Rightarrow> mal result" where
  "ns_vector args st = ret (SVec args) st"

definition ns_vec :: "mal list \<Rightarrow> store \<Rightarrow> mal result" where
  "ns_vec args st =
     bnd (type_of (idx args 0)) (\<lambda>t.
       if t = ''vec'' then Inr (idx args 0, st)
       else bnd (isList (idx args 0)) (\<lambda>xs. ret (SVec xs) st))"

definition ns_true :: "mal list \<Rightarrow> store \<Rightarrow> mal result" where
  "ns_true args st =
     (case idx args 0 of
        Undefined \<Rightarrow> Inl JsTypeError
      | Obj i sh \<Rightarrow> ret (SBool (type_tag sh = ''bool'' \<and> strict_eq (value_field st i sh) (JBool True))) st)"

definition ns_false :: "mal list \<Rightarrow> store \<Rightarrow> mal result" where
  "ns_false args st =
     (case idx args 0 of
        Undefined \<Rightarrow> Inl JsTypeError
      | Obj i sh \<Rightarrow> ret (SBool (type_tag sh = ''bool'' \<and> strict_eq (value_field st i sh) (JBool False))) st)"

subsection \<open>Reference cells\<close>

definition ns_atom :: "mal list \<Rightarrow> store \<Rightarrow> mal result" where
  "ns_atom args st =
     (case alloc SAtom st of
        (a, st') \<Rightarrow> Inr (a, st'\<lparr>cells := (cells st')(next_id st := idx args 0)\<rparr>))"

definition ns_deref :: "mal list \<Rightarrow> store \<Rightarrow> mal result" where
  "ns_deref args st = bnd (isAtom (idx args 0)) (\<lambda>a. Inr (cells st a, st))"

definition ns_reset :: "mal list \<Rightarrow> store \<Rightarrow> mal result" where
  "ns_reset args st =
     bnd (isAtom (idx args 0)) (\<lambda>a. Inr (idx args 1, st\<lparr>cells := (cells st)(a := idx args 1)\<rparr>))"

subsection \<open>The table of primitives\<close>

text \<open>
  \<^verbatim>\<open>ns\<close> maps a name to its operation.  The operations that re-enter the evaluator
  (\<^verbatim>\<open>apply\<close>, \<^verbatim>\<open>map\<close>, \<^verbatim>\<open>swap!\<close>) or depend on the reader, the printer, the map-key
  encoding or the file system are named but not given a body here; calling one of
  them is reported as \<open>Unmodelled\<close>.
\<close>

definition ns_names :: "string list" where
  "ns_names =
     [''throw'', ''+'', ''-'', ''*'', ''/'', ''='', ''>'', ''>='', ''<'', ''<='',
      ''cons'', ''concat'', ''list'', ''list?'', ''empty?'', ''count'', ''nth'', ''first'',
      ''rest'', ''apply'', ''map'', ''map?'', ''hash-map'', ''assoc'', ''dissoc'', ''get'',
      ''contains?'', ''keys'', ''vals'', ''sequential?'', ''vector?'', ''vector'', ''vec'',
      ''symbol'', ''keyword'', ''nil?'', ''symbol?'', ''keyword?'', ''true?'', ''false?'',
      ''read-string'', ''slurp'', ''pr-str'', ''str'', ''prn'', ''println'', ''atom'',
      ''atom?'', ''deref'', ''reset!'', ''swap!'']"

definition ns :: "string \<Rightarrow> mal list \<Rightarrow> store \<Rightarrow> mal result" where
  "ns name =
     (if name = ''throw'' then ns_throw
      else if name = ''+'' then ns_add
      else if name = ''-'' then ns_sub
      else if name = ''*'' then ns_mul
      else if name = ''/'' then ns_div
      else if name = ''='' then ns_eq
      else if name = ''>'' then ns_gt
      else if name = ''>='' then ns_ge
      else if name = ''<'' then ns_lt
      else if name = ''<='' then ns_le
      else if name = ''cons'' then ns_cons
      else if name = ''concat'' then ns_concat
      else if name = ''list'' then ns_list
      else if name = ''list?'' then type_is ''list''
      else if name = ''empty?'' then ns_empty
      else if name = ''count'' then ns_count
      else if name = ''nth'' then ns_nth
      else if name = ''first'' then ns_first
      else if name = ''rest'' then ns_rest
      else if name = ''map?'' then type_is ''map''
      else if name = ''sequential?'' then ns_sequential
      else if name = ''vector?'' then type_is ''vec''
      else if name = ''vector'' then ns_vector
      else if name = ''vec'' then ns_vec
      else if name = ''nil?'' then type_is ''nil''
      else if name = ''symbol?'' then type_is ''sym''
      else if name = ''keyword?'' then type_is ''key''
      else if name = ''true?'' then ns_true
      else if name = ''false?'' then ns_false
      else if name = ''atom'' then ns_atom
      else if name = ''atom?'' then type_is ''atom''
      else if name = ''deref'' then ns_deref
      else if name = ''reset!'' then ns_reset
      else (\<lambda>args st. Inl (Unmodelled name)))"


section \<open>Environment\<close>

text \<open>
  The module \<^verbatim>\<open>env\<close> is not among the sources; its three operations are modelled from
  the spec.  A frame maps symbol names to values and has an optional parent, fixed when
  the frame is created; an environment is therefore given by the identities of the
  frames of its chain, innermost first, and the bindings of each frame live in the
  store.
\<close>

type_synonym env = "nat list"

text \<open>
  Modelled from the spec: the positional binding done by \<^verbatim>\<open>init\<close>.  The frame does
  not validate the counts: a parameter without an argument receives \<^verbatim>\<open>undefined\<close>, and
  surplus arguments are dropped.
\<close>

fun bind_params :: "string list \<Rightarrow> mal list \<Rightarrow> (string \<rightharpoonup> mal) \<Rightarrow> (string \<rightharpoonup> mal)" where
  "bind_params [] args m = m"
| "bind_params (p # ps) args m = bind_params ps (drop 1 args) (m(p \<mapsto> idx args 0))"

text \<open>
  Modelled from the spec: \<^verbatim>\<open>init(parent, params?, args?)\<close> creates a new frame whose
  parent is the given environment and binds the parameters in it.
\<close>

definition env_init :: "env \<Rightarrow> string list \<Rightarrow> mal list \<Rightarrow> store \<Rightarrow> env \<times> store" where
  "env_init parent binds args st =
     (next_id st # parent,
      st\<lparr>frames := (frames st)(next_id st := bind_params binds args Map.empty),
         next_id := next_id st + 1\<rparr>)"

text \<open>
  Modelled from the spec: \<^verbatim>\<open>set(symbol, value)\<close> inserts or overwrites a binding in the
  current frame only.
\<close>

fun env_set :: "env \<Rightarrow> string \<Rightarrow> mal \<Rightarrow> store \<Rightarrow> store" where
  "env_set [] k v st = st"
| "env_set (a # outer) k v st = st\<lparr>frames := (frames st)(a := (frames st a)(k \<mapsto> v))\<rparr>"

text \<open>
  Modelled from the spec: \<^verbatim>\<open>get(symbol)\<close> searches the current frame, then each ancestor
  towards the root, and fails with an unbound-symbol error naming the symbol when no
  frame of the chain binds it.
\<close>

fun env_get :: "store \<Rightarrow> env \<Rightarrow> string \<Rightarrow> error + mal" where
  "env_get st [] k = Inl (UnboundSymbol k)"
| "env_get st (a # outer) k =
     (case frames st a k of Some v \<Rightarrow> Inr v | None \<Rightarrow> env_get st outer k)"

section \<open>Evaluator\<close>

text \<open>
  \<^verbatim>\<open>eval_\<close> is a loop over the pair \<^verbatim>\<open>(ast, env)\<close>; a case of the loop either returns,
  or assigns the pair and continues, or calls \<^verbatim>\<open>eval_\<close> afresh for a subexpression.
  One pass through the loop body is \<open>eval_step\<close>.  Its parameter \<open>rec\<close> stands for
  \<^verbatim>\<open>eval_\<close> itself, and its parameter \<open>s\<close> is the number of further nested activations
  of \<^verbatim>\<open>eval_\<close> the host stack has room for: \<open>continue\<close> re-enters \<open>rec\<close> with the
  same \<open>s\<close>, a call needs \<open>s > 0\<close> and runs with \<open>s - 1\<close>, and a call with no room left
  is the host's stack-depth failure.  The calls of the logger have no effect on the
  result and are left out.
\<close>

type_synonym evaluator = "nat \<Rightarrow> mal \<Rightarrow> env \<Rightarrow> store \<Rightarrow> mal result"

definition call :: "evaluator \<Rightarrow> nat \<Rightarrow> mal \<Rightarrow> env \<Rightarrow> store \<Rightarrow> mal result" where
  "call rec s ast env st = (case s of 0 \<Rightarrow> Inl StackOverflow | Suc s' \<Rightarrow> rec s' ast env st)"

fun eval_each :: "(mal \<Rightarrow> store \<Rightarrow> mal result) \<Rightarrow> mal list \<Rightarrow> store \<Rightarrow> (mal list) result" where
  "eval_each f [] st = Inr ([], st)"
| "eval_each f (x # xs) st =
     (case f x st of
        Inl e \<Rightarrow> Inl e
      | Inr (v, st') \<Rightarrow>
          (case eval_each f xs st' of
             Inl e \<Rightarrow> Inl e
           | Inr (vs, st'') \<Rightarrow> Inr (v # vs, st'')))"

fun eval_entries ::
  "(mal \<Rightarrow> store \<Rightarrow> mal result) \<Rightarrow> (string \<times> mal) list \<Rightarrow> store \<Rightarrow> ((string \<times> mal) list) result"
where
  "eval_entries f [] st = Inr ([], st)"
| "eval_entries f ((k, x) # m) st =
     (case f x st of
        Inl e \<Rightarrow> Inl e
      | Inr (v, st') \<Rightarrow>
          (case eval_entries f m st' of
             Inl e \<Rightarrow> Inl e
           | Inr (vs, st'') \<Rightarrow> Inr ((k, v) # vs, st'')))"

fun eval_ast :: "evaluator \<Rightarrow> nat \<Rightarrow> mal \<Rightarrow> env \<Rightarrow> store \<Rightarrow> mal result" where
  "eval_ast rec s Undefined env st = Inl JsTypeError"
| "eval_ast rec s (Obj i (SSym name)) env st = bnd (env_get st env name) (\<lambda>v. Inr (v, st))"
| "eval_ast rec s (Obj i (SList xs)) env st =
     (case eval_each (\<lambda>x. call rec s x env) xs st of
        Inl e \<Rightarrow> Inl e
      | Inr (vs, st') \<Rightarrow> ret (SList vs) st')"
| "eval_ast rec s (Obj i (SVec xs)) env st =
     (case eval_each (\<lambda>x. call rec s x env) xs st of
        Inl e \<Rightarrow> Inl e
      | Inr (vs, st') \<Rightarrow> ret (SVec vs) st')"
| "eval_ast rec s (Obj i (SMap m)) env st =
     (case eval_entries (\<lambda>x. call rec s x env) m st of
        Inl e \<Rightarrow> Inl e
      | Inr (vs, st') \<Rightarrow> ret (SMap vs) st')"
| "eval_ast rec s (Obj i sh) env st = Inr (Obj i sh, st)"

text \<open>The \<^verbatim>\<open>value\<close> field read through a reference.\<close>

fun value_of :: "store \<Rightarrow> mal \<Rightarrow> error + jsval" where
  "value_of st Undefined = Inl JsTypeError"
| "value_of st (Obj i sh) = Inr (value_field st i sh)"

text \<open>The loop of \<^verbatim>\<open>let*\<close> over the bindings, two positions at a time.\<close>

fun let_bindings :: "evaluator \<Rightarrow> nat \<Rightarrow> mal list \<Rightarrow> env \<Rightarrow> store \<Rightarrow> error + store" where
  "let_bindings rec s [] let_env st = Inr st"
| "let_bindings rec s (b # bs) let_env st =
     bnd (isSym b) (\<lambda>sym.
       (case call rec s (idx bs 0) let_env st of
          Inl e \<Rightarrow> Inl e
        | Inr (val, st') \<Rightarrow> let_bindings rec s (drop 1 bs) let_env (env_set let_env sym val st')))"

text \<open>The loop of \<^verbatim>\<open>do\<close> over the positions \<open>1 .. len - 2\<close>.\<close>

fun do_effects :: "evaluator \<Rightarrow> nat \<Rightarrow> mal list \<Rightarrow> env \<Rightarrow> store \<Rightarrow> error + store" where
  "do_effects rec s [] env st = Inr st"
| "do_effects rec s (x # xs) env st =
     (case call rec s x env st of
        Inl e \<Rightarrow> Inl e
      | Inr (result, st') \<Rightarrow> do_effects rec s xs env st')"

fun sym_names :: "mal list \<Rightarrow> error + string list" where
  "sym_names [] = Inr []"
| "sym_names (p # ps) = bnd (isSym p) (\<lambda>n. bnd (sym_names ps) (\<lambda>ns. Inr (n # ns)))"

definition eval_def :: "evaluator \<Rightarrow> nat \<Rightarrow> mal list \<Rightarrow> env \<Rightarrow> store \<Rightarrow> mal result" where
  "eval_def rec s xs env st =
     bnd (isSym (idx xs 1)) (\<lambda>sym.
       (case call rec s (idx xs 2) env st of
          Inl e \<Rightarrow> Inl e
        | Inr (v, st') \<Rightarrow> Inr (v, env_set env sym v st')))"

definition eval_let :: "evaluator \<Rightarrow> nat \<Rightarrow> mal list \<Rightarrow> env \<Rightarrow> store \<Rightarrow> mal result" where
  "eval_let rec s xs env st =
     (case env_init env [] [] st of
        (let_env, st0) \<Rightarrow>
          bnd (isList (idx xs 1)) (\<lambda>bindings.
          bnd (let_bindings rec s bindings let_env st0) (\<lambda>st'.
            rec s (idx xs 2) let_env st')))"

definition eval_do :: "evaluator \<Rightarrow> nat \<Rightarrow> mal list \<Rightarrow> env \<Rightarrow> store \<Rightarrow> mal result" where
  "eval_do rec s xs env st =
     bnd (do_effects rec s (butlast (drop 1 xs)) env st) (\<lambda>st'.
       rec s (idx xs (length xs - 1)) env st')"

definition eval_if :: "evaluator \<Rightarrow> nat \<Rightarrow> mal list \<Rightarrow> env \<Rightarrow> store \<Rightarrow> mal result" where
  "eval_if rec s xs env st =
     (case call rec s (idx xs 1) env st of
        Inl e \<Rightarrow> Inl e
      | Inr (c, st') \<Rightarrow>
          bnd (value_of st' c) (\<lambda>cond.
            if \<not> strict_eq cond (JBool False) \<and> \<not> strict_eq cond JNull
            then rec s (idx xs 2) env st'
            else if idx xs 3 = Undefined then ret SNil st'
            else rec s (idx xs 3) env st'))"

definition eval_fn :: "mal list \<Rightarrow> env \<Rightarrow> store \<Rightarrow> mal result" where
  "eval_fn xs env st =
     bnd (isListOrVec (idx xs 1)) (\<lambda>ps. ret (SFn (Closure env (idx xs 1) (idx xs 2))) st)"

text \<open>The array held by an evaluated list.\<close>

fun seq_value :: "mal \<Rightarrow> mal list" where
  "seq_value Undefined = []"
| "seq_value (Obj i sh) = items sh"

definition eval_apply :: "evaluator \<Rightarrow> nat \<Rightarrow> mal \<Rightarrow> env \<Rightarrow> store \<Rightarrow> mal result" where
  "eval_apply rec s ast env st =
     (case eval_ast rec s ast env st of
        Inl e \<Rightarrow> Inl e
      | Inr (evaled, st') \<Rightarrow>
          bnd (isFn (idx (seq_value evaled) 0)) (\<lambda>f.
            (case f of
               Native name \<Rightarrow> ns name (drop 1 (seq_value evaled)) st'
             | Closure fenv params body \<Rightarrow>
                 bnd (isListOrVec params) (\<lambda>ps.
                 bnd (sym_names ps) (\<lambda>binds.
                   (case env_init fenv binds (drop 1 (seq_value evaled)) st' of
                      (fn_env, st'') \<Rightarrow> rec s body fn_env st''))))))"

definition eval_step :: "evaluator \<Rightarrow> nat \<Rightarrow> mal \<Rightarrow> env \<Rightarrow> store \<Rightarrow> mal result" where
  "eval_step rec s ast env st =
     bnd (type_of ast) (\<lambda>t.
       if t \<noteq> ''list'' then eval_ast rec s ast env st
       else
         (case ast of
            Undefined \<Rightarrow> Inl JsTypeError
          | Obj i sh \<Rightarrow>
              if length (items sh) = 0 then Inr (ast, st)
              else
                bnd (value_of st (idx (items sh) 0)) (\<lambda>head.
                  if strict_eq head (JStr ''def!'') then eval_def rec s (items sh) env st
                  else if strict_eq head (JStr ''let*'') then eval_let rec s (items sh) env st
                  else if strict_eq head (JStr ''do'') then eval_do rec s (items sh) env st
                  else if strict_eq head (JStr ''if'') then eval_if rec s (items sh) env st
                  else if strict_eq head (JStr ''fn*'') then eval_fn (items sh) env st
                  else eval_apply rec s ast env st)))"

text \<open>
  \<^verbatim>\<open>eval_\<close> itself (a name cannot end in an underscore here, hence \<open>eval_mal\<close>).
  The loop may run forever, so the first argument is fuel: every pass through the loop
  body spends one unit, and a call of \<^verbatim>\<open>eval_\<close> starts with what the calling pass has
  left.  \<open>OutOfFuel\<close> is the answer of a run that has not returned within the bound.
\<close>

primrec eval_mal :: "nat \<Rightarrow> nat \<Rightarrow> mal \<Rightarrow> env \<Rightarrow> store \<Rightarrow> mal result" where
  "eval_mal 0 = (\<lambda>s ast env st. Inl OutOfFuel)"
| "eval_mal (Suc n) = eval_step (eval_mal n)"


section \<open>The root environment\<close>

text \<open>
  Modelled from the spec: the Reader is an external collaborator.  \<open>read_form\<close> stands
  for its result on the text of a form: one newly allocated object per node of the
  form, the elements of a list before the list.  An integer literal is read as the
  double nearest to it.  The keys of a map literal are given as the reader encodes
  them.
\<close>

datatype form =
    FNil
  | FBool bool
  | FInt int
  | FStr string
  | FSym string
  | FKey string
  | FList "form list"
  | FVec "form list"
  | FMap "(string \<times> form) list"

fun read_form :: "form \<Rightarrow> store \<Rightarrow> mal \<times> store"
  and read_forms :: "form list \<Rightarrow> store \<Rightarrow> mal list \<times> store"
  and read_entries :: "(string \<times> form) list \<Rightarrow> store \<Rightarrow> (string \<times> mal) list \<times> store"
where
  "read_form FNil st = alloc SNil st"
| "read_form (FBool b) st = alloc (SBool b) st"
| "read_form (FInt n) st = alloc (SInt (js_of_int n)) st"
| "read_form (FStr x) st = alloc (SStr x) st"
| "read_form (FSym x) st = alloc (SSym x) st"
| "read_form (FKey x) st = alloc (SKey x) st"
| "read_form (FList fs) st = (case read_forms fs st of (xs, st') \<Rightarrow> alloc (SList xs) st')"
| "read_form (FVec fs) st = (case read_forms fs st of (xs, st') \<Rightarrow> alloc (SVec xs) st')"
| "read_form (FMap m) st = (case read_entries m st of (es, st') \<Rightarrow> alloc (SMap es) st')"
| "read_forms [] st = ([], st)"
| "read_forms (f # fs) st =
     (case read_form f st of
        (x, st') \<Rightarrow> (case read_forms fs st' of (xs, st'') \<Rightarrow> (x # xs, st'')))"
| "read_entries [] st = ([], st)"
| "read_entries ((k, f) # m) st =
     (case read_form f st of
        (x, st') \<Rightarrow> (case read_entries m st' of (es, st'') \<Rightarrow> ((k, x) # es, st'')))"

definition empty_store :: store where
  "empty_store = \<lparr>frames = (\<lambda>a. Map.empty), cells = (\<lambda>a. Undefined), next_id = 0\<rparr>"

definition set_native :: "env \<Rightarrow> string \<Rightarrow> store \<Rightarrow> store" where
  "set_native env name st = (case alloc (SFn (Native name)) st of (f, st') \<Rightarrow> env_set env name f st')"

text \<open>\<^verbatim>\<open>(def! not (fn* (a) (if a false true)))\<close>\<close>

definition not_form :: form where
  "not_form =
     FList [FSym ''def!'', FSym ''not'',
       FList [FSym ''fn*'', FList [FSym ''a''],
         FList [FSym ''if'', FSym ''a'', FBool False, FBool True]]]"

text \<open>\<^verbatim>\<open>(def! load-file (fn* (f) (eval (read-string (str "(do " (slurp f) "\nnil)")))))\<close>\<close>

definition load_file_form :: form where
  "load_file_form =
     FList [FSym ''def!'', FSym ''load-file'',
       FList [FSym ''fn*'', FList [FSym ''f''],
         FList [FSym ''eval'',
           FList [FSym ''read-string'',
             FList [FSym ''str'', FStr ''(do '', FList [FSym ''slurp'', FSym ''f''],
               FStr (CHR 0x0A # ''nil)'')]]]]]"

definition core_env :: "nat \<Rightarrow> nat \<Rightarrow> store \<Rightarrow> error + env \<times> store" where
  "core_env fuel s st =
     (case env_init [] [] [] st of
        (env, st1) \<Rightarrow>
          (case read_form not_form (fold (set_native env) ns_names st1) of
             (ast, st2) \<Rightarrow>
               (case eval_mal fuel s ast env st2 of
                  Inl e \<Rightarrow> Inl e
                | Inr (v, st3) \<Rightarrow> Inr (env, st3))))"

definition build_env :: "nat \<Rightarrow> nat \<Rightarrow> store \<Rightarrow> error + env \<times> store" where
  "build_env fuel s st =
     (case core_env fuel s st of
        Inl e \<Rightarrow> Inl e
      | Inr (cenv, st1) \<Rightarrow>
          (case env_init cenv [] [] st1 of
             (env, st2) \<Rightarrow>
               (case read_form load_file_form (set_native env ''eval'' st2) of
                  (ast, st3) \<Rightarrow>
                    (case eval_mal fuel s ast env st3 of
                       Inl e \<Rightarrow> Inl e
                     | Inr (v, st4) \<Rightarrow> Inr (env, st4)))))"


text \<open>
  \<^verbatim>\<open>(do (def! v 1) (= (atom v) (atom v)))\<close>: two cells are created, each holding the
  object bound to \<open>v\<close>.
\<close>

definition atoms_form :: form where
  "atoms_form =
     FList [FSym ''do'',
       FList [FSym ''def!'', FSym ''v'', FInt 1],
       FList [FSym ''='', FList [FSym ''atom'', FSym ''v''], FList [FSym ''atom'', FSym ''v'']]]"

text \<open>\<^verbatim>\<open>(= {"a" 1} {"b" 1})\<close>, the keys standing for their encodings.\<close>

definition maps_form :: form where
  "maps_form =
     FList [FSym ''='', FMap [(''a'', FInt 1)], FMap [(''b'', FInt 1)]]"

section \<open>Programs and stores used in the statements\<close>

text \<open>
  The environment in which the interactive loop evaluates its input: \<^verbatim>\<open>build_env\<close>
  started from the empty store, then \<^verbatim>\<open>*ARGV*\<close> bound to the empty list (no program
  arguments).  Three passes of the loop and two nested activations are enough for the
  two bootstrap definitions.
\<close>

definition repl :: "env \<times> store" where
  "repl =
     (case build_env 3 2 empty_store of
        Inl e \<Rightarrow> ([], empty_store)
      | Inr (env, st) \<Rightarrow>
          (case alloc (SList []) st of (argv, st') \<Rightarrow> (env, env_set env ''*ARGV*'' argv st')))"

text \<open>
  A self-recursive closure whose recursive call is the last expression of an
  \<^verbatim>\<open>if\<close>, a \<^verbatim>\<open>do\<close> and a \<^verbatim>\<open>let*\<close>:
  \<^verbatim>\<open>(def! loop (fn* (n) (if (= n 0) n (do n (let* (m (- n 1)) (loop m))))))\<close>
\<close>

definition loop_body_form :: form where
  "loop_body_form =
     FList [FSym ''if'', FList [FSym ''='', FSym ''n'', FInt 0], FSym ''n'',
       FList [FSym ''do'', FSym ''n'',
         FList [FSym ''let*'', FList [FSym ''m'', FList [FSym ''-'', FSym ''n'', FInt 1]],
           FList [FSym ''loop'', FSym ''m'']]]]"

definition loop_form :: form where
  "loop_form =
     FList [FSym ''def!'', FSym ''loop'', FList [FSym ''fn*'', FList [FSym ''n''], loop_body_form]]"

text \<open>The body as the reader allocates it when the next free identity is \<open>b\<close>.\<close>

definition loop_body :: "nat \<Rightarrow> mal" where
  "loop_body b = fst (read_form loop_body_form (empty_store\<lparr>next_id := b\<rparr>))"

text \<open>The interactive environment after the definition of \<^verbatim>\<open>loop\<close> has been evaluated.\<close>

definition loop_repl :: "env \<times> store" where
  "loop_repl =
     (case read_form loop_form (snd repl) of
        (ast, st) \<Rightarrow>
          (case eval_mal 2 1 ast (fst repl) st of
             Inl e \<Rightarrow> ([], empty_store)
           | Inr (v, st') \<Rightarrow> (fst repl, st')))"

text \<open>\<^verbatim>\<open>(loop 100000)\<close>, read in that environment.\<close>

definition loop_call :: "mal \<times> store" where
  "loop_call = read_form (FList [FSym ''loop'', FInt 100000]) (snd loop_repl)"

text \<open>\<^verbatim>\<open>(do)\<close>, read in the interactive environment.\<close>

definition do_call :: "mal \<times> store" where
  "do_call = read_form (FList [FSym ''do'']) (snd repl)"

text \<open>
  A recursive closure whose recursive call is an argument, not the last expression:
  \<^verbatim>\<open>(def! sum (fn* (n) (if (= n 0) 0 (+ n (sum (- n 1))))))\<close>
\<close>

definition sum_form :: form where
  "sum_form =
     FList [FSym ''def!'', FSym ''sum'',
       FList [FSym ''fn*'', FList [FSym ''n''],
         FList [FSym ''if'', FList [FSym ''='', FSym ''n'', FInt 0], FInt 0,
           FList [FSym ''+'', FSym ''n'',
             FList [FSym ''sum'', FList [FSym ''-'', FSym ''n'', FInt 1]]]]]]"

text \<open>
  The binding list of a \<^verbatim>\<open>let*\<close> with the pairs \<open>ps\<close>: each pair is the identity and
  the name of a symbol object, and the expression bound to it.
\<close>

fun binding_list :: "(nat \<times> string \<times> mal) list \<Rightarrow> mal list" where
  "binding_list [] = []"
| "binding_list ((p, x, e) # ps) = Obj p (SSym x) # e # binding_list ps"

text \<open>
  Sequential binding as the specification words it: each expression in turn is
  evaluated in the child frame with the bindings made so far, and its symbol is bound
  there at once, before the next expression is looked at.  \<open>rec s\<close> is the evaluation of
  an expression in its own activation.
\<close>

fun let_spec ::
  "evaluator \<Rightarrow> nat \<Rightarrow> (nat \<times> string \<times> mal) list \<Rightarrow> env \<Rightarrow> store \<Rightarrow> error + store"
where
  "let_spec rec s [] let_env st = Inr st"
| "let_spec rec s ((p, x, e) # ps) let_env st =
     (case rec s e let_env st of
        Inl err \<Rightarrow> Inl err
      | Inr (v, st') \<Rightarrow> let_spec rec s ps let_env (env_set let_env x v st'))"

text \<open>A store with an empty root frame \<open>0\<close> in which the identities below \<open>10\<close> are taken.\<close>

definition store10 :: store where
  "store10 = empty_store\<lparr>next_id := 10\<rparr>"

text \<open>
  One iteration of \<^verbatim>\<open>loop\<close>, from the configuration in which the body starts with \<open>n\<close>
  bound to \<open>k + 1\<close> to the one in which it starts again with \<open>n\<close> bound to \<open>k\<close>.  With \<open>i\<close>
  the next free identity, the iteration creates, in this order: the evaluated list and
  the boolean of the test (\<open>i\<close>, \<open>i + 1\<close>), the frame of \<^verbatim>\<open>let*\<close> (\<open>i + 2\<close>), the evaluated
  list and the result of the subtraction (\<open>i + 3\<close>, \<open>i + 4\<close>), the evaluated list of the
  recursive call (\<open>i + 5\<close>) and the frame of the closure (\<open>i + 6\<close>).
\<close>

definition loop_next :: "nat \<Rightarrow> mal \<times> env \<times> store \<Rightarrow> mal \<times> env \<times> store" where
  "loop_next k c =
     (case c of
        (body, env, st) \<Rightarrow>
          (body, (next_id st + 6) # drop 1 env,
           st\<lparr>frames := (frames st)
                  (next_id st + 2 := [''m'' \<mapsto> Obj (next_id st + 4) (SInt (Fin (int k)))],
                   next_id st + 6 := [''n'' \<mapsto> Obj (next_id st + 4) (SInt (Fin (int k)))]),
                next_id := next_id st + 7\<rparr>))"

text \<open>
  The configuration in which the body of \<^verbatim>\<open>loop\<close> starts when the closure is applied
  to the object \<open>arg\<close> in the store \<open>st\<close>: the evaluated list of the application and the
  frame of the closure have been created.
\<close>

definition loop_entry :: "nat \<Rightarrow> env \<Rightarrow> mal \<Rightarrow> store \<Rightarrow> mal \<times> env \<times> store" where
  "loop_entry b cenv arg st =
     (loop_body b, (next_id st + 1) # cenv,
      st\<lparr>frames := (frames st)(next_id st + 1 := [''n'' \<mapsto> arg]), next_id := next_id st + 2\<rparr>)"

text \<open>The configuration after \<open>j\<close> iterations that started in \<open>c\<close> with \<open>n\<close> bound to \<open>N\<close>.\<close>

primrec loop_cfg :: "nat \<Rightarrow> mal \<times> env \<times> store \<Rightarrow> nat \<Rightarrow> mal \<times> env \<times> store" where
  "loop_cfg N c 0 = c"
| "loop_cfg N c (Suc j) = loop_next (N - Suc j) (loop_cfg N c j)"

text \<open>
  What the body of \<^verbatim>\<open>loop\<close> returns in a configuration where \<open>n\<close> is bound to zero: the
  object bound to \<open>n\<close>, the evaluated list and the boolean of the test having been
  created.
\<close>

definition loop_result :: "mal \<times> env \<times> store \<Rightarrow> mal result" where
  "loop_result c =
     (case c of
        (body, env, st) \<Rightarrow>
          bnd (env_get st env ''n'') (\<lambda>v. Inr (v, st\<lparr>next_id := next_id st + 2\<rparr>)))"

text \<open>The variant and payload of the value a run returns, without its identity.\<close>

fun answer_shape :: "mal result \<Rightarrow> error + shape option" where
  "answer_shape (Inl e) = Inl e"
| "answer_shape (Inr (Undefined, st)) = Inr None"
| "answer_shape (Inr (Obj i sh, st)) = Inr (Some sh)"

text \<open>The search of \<open>env_get\<close>, as a function of the frames alone.\<close>

fun lookup :: "(nat \<Rightarrow> string \<rightharpoonup> mal) \<Rightarrow> env \<Rightarrow> string \<Rightarrow> error + mal" where
  "lookup F [] k = Inl (UnboundSymbol k)"
| "lookup F (a # outer) k = (case F a k of Some v \<Rightarrow> Inr v | None \<Rightarrow> lookup F outer k)"

section \<open>Running out of fuel, and continuing the loop\<close>

text \<open>
  A run that is given more passes answers the same unless it had run out of them:
  \<open>le_res r r'\<close> says that \<open>r'\<close> is \<open>r\<close> or \<open>r\<close> is \<open>OutOfFuel\<close>.
\<close>

definition le_res :: "error + 'a \<Rightarrow> error + 'a \<Rightarrow> bool" where
  "le_res r r' \<longleftrightarrow> r = Inl OutOfFuel \<or> r = r'"

definition le_eval :: "evaluator \<Rightarrow> evaluator \<Rightarrow> bool" where
  "le_eval rec rec' \<longleftrightarrow> (\<forall>s ast env st. le_res (rec s ast env st) (rec' s ast env st))"

text \<open>
  \<open>returns s c r\<close>: in the configuration \<open>c\<close> (expression, environment, store) and with
  room for \<open>s\<close> nested activations, \<^verbatim>\<open>eval_\<close> returns \<open>r\<close> (a value and a store, or an
  error) after finitely many passes.
\<close>

definition returns :: "nat \<Rightarrow> mal \<times> env \<times> store \<Rightarrow> mal result \<Rightarrow> bool" where
  "returns s c r \<longleftrightarrow>
     r \<noteq> Inl OutOfFuel \<and> (\<exists>n. eval_mal n s (fst c) (fst (snd c)) (snd (snd c)) = r)"

text \<open>
  \<open>tail_step s c c'\<close>: one pass of the loop in configuration \<open>c\<close> ends in \<^verbatim>\<open>continue\<close>
  with configuration \<open>c'\<close>.  These are the four places where the source assigns
  \<^verbatim>\<open>ast\<close> (and \<^verbatim>\<open>env\<close>) and continues: the branches of \<^verbatim>\<open>if\<close>, the last expression of
  \<^verbatim>\<open>do\<close>, the body of \<^verbatim>\<open>let*\<close>, and the body of an applied closure.  The subexpressions
  evaluated on the way (condition, effects, bindings, head and arguments) are calls of
  \<^verbatim>\<open>eval_\<close> and must return.
\<close>

inductive tail_step :: "nat \<Rightarrow> mal \<times> env \<times> store \<Rightarrow> mal \<times> env \<times> store \<Rightarrow> bool"
  for s :: nat
where
  if_then:
    "\<exists>n. call (eval_mal n) s c env st = Inr (Obj i v, st') \<Longrightarrow> v \<noteq> SNil \<Longrightarrow> v \<noteq> SBool False
     \<Longrightarrow> tail_step s (Obj j (SList (Obj h (SSym ''if'') # c # t # rest)), env, st) (t, env, st')"
| if_else:
    "\<exists>n. call (eval_mal n) s c env st = Inr (Obj i v, st') \<Longrightarrow> v = SNil \<or> v = SBool False
     \<Longrightarrow> tail_step s (Obj j (SList (Obj h (SSym ''if'') # c # t # Obj k e # rest)), env, st)
           (Obj k e, env, st')"
| do_last:
    "\<exists>n. do_effects (eval_mal n) s xs env st = Inr st'
     \<Longrightarrow> tail_step s (Obj j (SList (Obj h (SSym ''do'') # xs @ [x])), env, st) (x, env, st')"
| let_body:
    "\<exists>n. let_bindings (eval_mal n) s bs (next_id st # env)
            (st\<lparr>frames := (frames st)(next_id st := Map.empty), next_id := next_id st + 1\<rparr>)
          = Inr st'
     \<Longrightarrow> tail_step s (Obj j (SList (Obj h (SSym ''let*'') # Obj b (SList bs) # body # rest)), env, st)
           (body, next_id st # env, st')"
| closure_call:
    "value_of st hx = Inr hv
     \<Longrightarrow> \<not> strict_eq hv (JStr ''def!'') \<Longrightarrow> \<not> strict_eq hv (JStr ''let*'')
     \<Longrightarrow> \<not> strict_eq hv (JStr ''do'') \<Longrightarrow> \<not> strict_eq hv (JStr ''if'')
     \<Longrightarrow> \<not> strict_eq hv (JStr ''fn*'')
     \<Longrightarrow> \<exists>n. eval_ast (eval_mal n) s (Obj l (SList (hx # as))) env st
              = Inr (Obj r (SList (Obj c (SFn (Closure fenv params body)) # args)), st')
     \<Longrightarrow> isListOrVec params = Inr ps \<Longrightarrow> sym_names ps = Inr binds
     \<Longrightarrow> tail_step s (Obj l (SList (hx # as)), env, st)
           (body, next_id st' # fenv,
            st'\<lparr>frames := (frames st')(next_id st' := bind_params binds args Map.empty),
                  next_id := next_id st' + 1\<rparr>)"


section \<open>Rounding\<close>

text \<open>
  On integers of magnitude below \<open>2^53\<close> the rounding is the identity, and the floor of
  the rounded quotient of two of them is the floor of their quotient.
\<close>

lemma pow2_pos: "0 < pow2 k"
  by (simp add: pow2_def)

lemma pow2_numeral: "pow2 (numeral k) = 2 ^ numeral k"
  by (simp add: pow2_def)

lemma pow2_nonpos: "k \<le> 0 \<Longrightarrow> pow2 k = 1"
  by (simp add: pow2_def)

lemma pow2_add: "0 \<le> a \<Longrightarrow> 0 \<le> b \<Longrightarrow> pow2 (a + b) = pow2 a * pow2 b"
  by (simp add: pow2_def nat_add_distrib power_add)

lemma pow2_mono: "a \<le> b \<Longrightarrow> pow2 a \<le> pow2 b"
  by (simp add: pow2_def)

lemma quot_exp_lower:
  assumes "0 < n" "0 < d"
  shows "d * pow2 (quot_exp n d) \<le> n * pow2 (- quot_exp n d)"
proof -
  define e where "e = bitlen n - bitlen d"
  show ?thesis
  proof (cases "d * pow2 e \<le> n * pow2 (- e)")
    case True
    then show ?thesis by (simp add: quot_exp_def e_def Let_def)
  next
    case False
    then have q: "quot_exp n d = e - 1" by (simp add: quot_exp_def e_def Let_def)
    from bitlen_bounds [OF assms(1)] have n: "2 ^ nat (bitlen n - 1) \<le> n" by simp
    from bitlen_bounds [OF assms(2)] have d: "d < 2 ^ nat (bitlen d)" by simp
    have bn: "1 \<le> bitlen n" using assms(1) by (simp add: bitlen_alt_def)
    have bd: "1 \<le> bitlen d" using assms(2) by (simp add: bitlen_alt_def)
    show ?thesis
    proof (cases "1 \<le> e")
      case True
      then have "pow2 (- (e - 1)) = 1" by (simp add: pow2_nonpos)
      moreover have "d * pow2 (e - 1) \<le> n"
      proof -
        have "d * pow2 (e - 1) \<le> 2 ^ nat (bitlen d) * pow2 (e - 1)"
          using d pow2_pos [of "e - 1"] by (simp add: mult_right_mono)
        also have "\<dots> = pow2 (bitlen d + (e - 1))"
          using True bd by (simp add: pow2_def nat_add_distrib power_add)
        also have "bitlen d + (e - 1) = bitlen n - 1" by (simp add: e_def)
        also have "pow2 (bitlen n - 1) \<le> n" using n by (simp add: pow2_def)
        finally show ?thesis .
      qed
      ultimately show ?thesis by (simp add: q)
    next
      case False
      then have p: "pow2 (e - 1) = 1" by (simp add: pow2_nonpos)
      have "d \<le> pow2 (bitlen d)" using d by (simp add: pow2_def)
      also have "bitlen d = (bitlen n - 1) + (1 - e)" by (simp add: e_def)
      also have "pow2 ((bitlen n - 1) + (1 - e)) = pow2 (bitlen n - 1) * pow2 (1 - e)"
        using False bn by (intro pow2_add) simp_all
      also have "\<dots> \<le> n * pow2 (1 - e)"
        using n pow2_pos [of "1 - e"] by (simp add: pow2_def mult_right_mono)
      finally show ?thesis by (simp add: q p)
    qed
  qed
qed

lemma round_even_cases:
  assumes "0 < d"
  obtains q r where "n = q * d + r" "0 \<le> r" "r < d" "d \<le> 2 * r" "round_even n d = q + 1"
  | q r where "n = q * d + r" "0 \<le> r" "r < d" "2 * r \<le> d" "round_even n d = q"
proof (cases "d < 2 * (n mod d) \<or> (2 * (n mod d) = d \<and> odd (n div d))")
  case True
  then have "round_even n d = n div d + 1" "d \<le> 2 * (n mod d)"
    by (auto simp: round_even_def Let_def)
  moreover have "n = n div d * d + n mod d" "0 \<le> n mod d" "n mod d < d"
    using assms by simp_all
  ultimately show ?thesis using that(1) by blast
next
  case False
  then have "round_even n d = n div d" "2 * (n mod d) \<le> d"
    by (auto simp: round_even_def Let_def)
  moreover have "n = n div d * d + n mod d" "0 \<le> n mod d" "n mod d < d"
    using assms by simp_all
  ultimately show ?thesis using that(2) by blast
qed

lemma round_even_upper:
  assumes "0 < d"
  shows "2 * round_even n d * d \<le> 2 * n + d"
  using assms by (rule round_even_cases [of d n]) (simp_all add: algebra_simps)

lemma round_even_lower:
  assumes "0 < d"
  shows "2 * n - d \<le> 2 * round_even n d * d"
  using assms by (rule round_even_cases [of d n]) (simp_all add: algebra_simps)

lemma round_even_ge:
  assumes "0 < d" "c * d \<le> n"
  shows "c \<le> round_even n d"
proof -
  have "c \<le> n div d"
    using assms by (metis zdiv_mono1 nonzero_mult_div_cancel_right less_irrefl)
  also have "n div d \<le> round_even n d"
    by (simp add: round_even_def Let_def)
  finally show ?thesis .
qed

lemma round_even_le:
  assumes "0 < d" "n \<le> c * d"
  shows "round_even n d \<le> c"
  using assms(1)
proof (rule round_even_cases [of d n])
  fix q r assume h: "n = q * d + r" "0 \<le> r" "r < d" "d \<le> 2 * r" "round_even n d = q + 1"
  then have "q * d < c * d" using assms by linarith
  then have "q < c" using assms(1) by (simp add: mult_less_cancel_right)
  then show ?thesis using h by simp
next
  fix q r assume h: "n = q * d + r" "0 \<le> r" "r < d" "2 * r \<le> d" "round_even n d = q"
  then have "q * d < (c + 1) * d" using assms by (simp add: algebra_simps)
  then have "q < c + 1" using assms(1) by (simp add: mult_less_cancel_right)
  then show ?thesis using h by simp
qed


lemma div_between:
  fixes m :: int
  assumes "0 < P" "f * P \<le> m" "m < (f + 1) * P"
  shows "m div P = f"
proof -
  define q r where "q = m div P" and "r = m mod P"
  have m: "m = q * P + r" and r: "0 \<le> r" "r < P"
    using assms(1) by (simp_all add: q_def r_def)
  have "f * P < (q + 1) * P" using assms(2) m r by (simp add: algebra_simps)
  then have "f < q + 1" using assms(1) by (simp add: mult_less_cancel_right)
  moreover have "q * P < (f + 1) * P" using assms(3) m r by (simp add: algebra_simps)
  then have "q < f + 1" using assms(1) by (simp add: mult_less_cancel_right)
  ultimately show ?thesis by (simp add: q_def)
qed

lemma fl_quot_safe:
  assumes "0 < n" "n < 2 ^ 53" "0 < d" "d < 2 ^ 53"
  obtains m K where "fl_quot n d = (m, - K)" "0 \<le> K" "m = round_even (n * pow2 K) d" "d < 2 * pow2 K"
proof -
  define e where "e = quot_exp n d"
  define K where "K = 52 - max e (- 1022)"
  have low: "d * pow2 e \<le> n * pow2 (- e)"
    unfolding e_def using assms(1,3) by (rule quot_exp_lower)
  have e52: "e \<le> 52"
  proof (rule ccontr)
    assume "\<not> e \<le> 52"
    then have e: "53 \<le> e" by simp
    then have "pow2 (- e) = 1" by (simp add: pow2_nonpos)
    moreover have "pow2 53 \<le> pow2 e" using e by (rule pow2_mono)
    moreover have "1 * pow2 e \<le> d * pow2 e"
      using assms(3) pow2_pos [of e] by (intro mult_right_mono) simp_all
    ultimately have "pow2 53 \<le> n" using low by simp
    then show False using assms(2) unfolding pow2_numeral by linarith
  qed
  then have K0: "0 \<le> K" by (simp add: K_def)
  then have pk: "pow2 (- K) = 1" by (simp add: pow2_nonpos)
  have kk: "max (quot_exp n d) (- 1022) - 52 = - K"
    by (simp add: K_def e_def)
  have fq: "fl_quot n d = (round_even (n * pow2 K) d, - K)"
    unfolding fl_quot_def Let_def kk by (simp add: pk)
  have dP: "d < 2 * pow2 K"
  proof (cases "- 1022 \<le> e")
    case True
    then have K: "K = 52 - e" by (simp add: K_def)
    show ?thesis
    proof (cases "0 \<le> e")
      case True
      then have "pow2 (- e) = 1" by (simp add: pow2_nonpos)
      then have "d * pow2 e < 2 ^ 53" using low assms(2) by simp
      also have "(2::int) ^ 53 = pow2 (e + (53 - e))" by (simp add: pow2_numeral)
      also have "\<dots> = pow2 e * pow2 (53 - e)"
        using True e52 by (intro pow2_add) simp_all
      finally have "d < pow2 (53 - e)"
        using pow2_pos [of e] by (simp add: mult.commute)
      also have "53 - e = 1 + K" by (simp add: K)
      also have "pow2 (1 + K) = pow2 1 * pow2 K"
        using K0 by (intro pow2_add) simp_all
      finally show ?thesis by (simp add: pow2_def)
    next
      case False
      then have "pow2 e = 1" by (simp add: pow2_nonpos)
      then have "d \<le> n * pow2 (- e)" using low by simp
      also have "\<dots> < 2 ^ 53 * pow2 (- e)"
        using assms(2) pow2_pos [of "- e"] by (simp add: mult_strict_right_mono)
      also have "\<dots> = pow2 53 * pow2 (- e)" by (simp add: pow2_numeral)
      also have "\<dots> = pow2 (53 + (- e))"
        using False by (intro pow2_add [symmetric]) simp_all
      also have "53 + (- e) = 1 + K" by (simp add: K)
      also have "pow2 (1 + K) = pow2 1 * pow2 K"
        using K0 by (intro pow2_add) simp_all
      finally show ?thesis by (simp add: pow2_def)
    qed
  next
    case False
    then have K: "K = 1074" by (simp add: K_def)
    have "d < pow2 53" using assms(4) by (simp add: pow2_numeral)
    also have "\<dots> \<le> pow2 K" unfolding K by (rule pow2_mono) simp
    also have "\<dots> \<le> 2 * pow2 K" using pow2_pos [of K] by simp
    finally show ?thesis .
  qed
  show ?thesis
    using that [OF fq K0 refl dP] .
qed


lemma floor_fl_quot_safe:
  assumes "0 < n" "n < 2 ^ 53" "0 < d" "d < 2 ^ 53"
  shows "floor_of (fl_quot n d) = n div d"
proof -
  from assms obtain m K where fq: "fl_quot n d = (m, - K)" and K: "0 \<le> K"
    and m: "m = round_even (n * pow2 K) d" and dP: "d < 2 * pow2 K"
    by (rule fl_quot_safe)
  define P where "P = pow2 K"
  define f where "f = n div d"
  define r where "r = n mod d"
  have P: "0 < P" by (simp add: P_def pow2_pos)
  have n: "n = f * d + r" and r: "0 \<le> r" "r < d"
    using assms(3) by (simp_all add: f_def r_def)
  have "(f * P) * d \<le> n * P"
    using r P by (simp add: n algebra_simps)
  then have lo: "f * P \<le> m"
    unfolding m P_def [symmetric] using assms(3) by (intro round_even_ge)
  have "2 * m * d \<le> 2 * (n * P) + d"
    unfolding m P_def [symmetric] using assms(3) by (rule round_even_upper)
  also have "\<dots> < 2 * (n * P) + 2 * P" using dP by (simp add: P_def)
  also have "\<dots> \<le> 2 * (((f + 1) * P) * d)"
  proof -
    have "n + 1 \<le> (f + 1) * d" using r by (simp add: n algebra_simps)
    then have "(n + 1) * P \<le> ((f + 1) * d) * P"
      using P by (intro mult_right_mono) simp_all
    then show ?thesis by (simp add: algebra_simps)
  qed
  finally have "m * d < ((f + 1) * P) * d" by simp
  then have hi: "m < (f + 1) * P"
    using assms(3) by (simp add: mult_less_cancel_right)
  have "m div P = f" using P lo hi by (rule div_between)
  then show ?thesis
    using K by (simp add: fq floor_of_def pow2_nonpos P_def f_def)
qed

lemma ceil_fl_quot_safe:
  assumes "0 < n" "n < 2 ^ 53" "0 < d" "d < 2 ^ 53"
  shows "- ceil_of (fl_quot n d) = (- n) div d"
proof -
  from assms obtain m K where fq: "fl_quot n d = (m, - K)" and K: "0 \<le> K"
    and m: "m = round_even (n * pow2 K) d" and dP: "d < 2 * pow2 K"
    by (rule fl_quot_safe)
  define P where "P = pow2 K"
  define f where "f = (- n) div d"
  define r where "r = (- n) mod d"
  have P: "0 < P" by (simp add: P_def pow2_pos)
  have n: "- n = f * d + r" and r: "0 \<le> r" "r < d"
    using assms(3) by (simp_all add: f_def r_def)
  have nn: "n = - f * d - r" using n by simp
  have "n * P \<le> (- f * P) * d"
  proof -
    have "n \<le> - f * d" using r by (simp add: nn)
    then have "n * P \<le> (- f * d) * P" using P by (intro mult_right_mono) simp_all
    then show ?thesis by (simp add: algebra_simps)
  qed
  then have hi: "m \<le> - f * P"
    unfolding m P_def [symmetric] using assms(3) by (intro round_even_le)
  have "2 * (((- f - 1) * P) * d) + 2 * P \<le> 2 * (n * P)"
  proof -
    have "(- f - 1) * d + 1 \<le> n" using r by (simp add: nn algebra_simps)
    then have "((- f - 1) * d + 1) * P \<le> n * P"
      using P by (intro mult_right_mono) simp_all
    then show ?thesis by (simp add: algebra_simps)
  qed
  then have "2 * (((- f - 1) * P) * d) < 2 * (n * P) - d" using dP by (simp add: P_def)
  also have "\<dots> \<le> 2 * m * d"
    unfolding m P_def [symmetric] using assms(3) by (rule round_even_lower)
  finally have "((- f - 1) * P) * d < m * d" by simp
  then have lo: "(- f - 1) * P < m"
    using assms(3) by (simp add: mult_less_cancel_right)
  have "(- m) div P = f"
    using P by (rule div_between) (use lo hi in \<open>simp_all add: algebra_simps\<close>)
  then show ?thesis
    using K by (simp add: fq ceil_of_def pow2_nonpos P_def f_def)
qed

lemma floor_fl_safe:
  assumes "0 < n" "n < 2 ^ 53" "0 < d" "d < 2 ^ 53"
  shows "floor_fl False n d = Fin (n div d)" and "floor_fl True n d = Fin ((- n) div d)"
proof -
  have "n div d \<le> n div 1"
    using assms(1,3) by (intro zdiv_mono2) simp_all
  then have "n div d \<le> n" by simp
  also have "n < 2 ^ 53" by (rule assms(2))
  also have "(2::int) ^ 53 \<le> 2 ^ 1024" by (rule power_increasing) simp_all
  finally have small: "\<not> 2 ^ 1024 \<le> floor_of (fl_quot n d)"
    using floor_fl_quot_safe [OF assms] by simp
  show "floor_fl False n d = Fin (n div d)"
    using small floor_fl_quot_safe [OF assms] by (simp add: floor_fl_def Let_def)
  show "floor_fl True n d = Fin ((- n) div d)"
    using small ceil_fl_quot_safe [OF assms] by (simp add: floor_fl_def Let_def)
qed

lemma js_of_int_safe [simp]: "\<bar>c\<bar> < 2 ^ 53 \<Longrightarrow> js_of_int c = Fin c"
  using floor_fl_safe [of "\<bar>c\<bar>" 1]
  by (cases "c < 0") (auto simp: js_of_int_def js_round_def)

lemma js_add_fin: "\<bar>a + b\<bar> < 2 ^ 53 \<Longrightarrow> js_add (Fin a) (Fin b) = Fin (a + b)"
  by (simp add: js_add_def js_of_int_safe signed_zero_def)

lemma js_sub_fin: "\<bar>a - b\<bar> < 2 ^ 53 \<Longrightarrow> js_sub (Fin a) (Fin b) = Fin (a - b)"
  using js_of_int_safe [of "a - b"]
  by (auto simp: js_sub_def js_add_def signed_zero_def)

lemma js_sub_one: "k < 2 ^ 53 \<Longrightarrow> js_sub (Fin (1 + int k)) (Fin 1) = Fin (int k)"
  using js_sub_fin [of "1 + int k" 1] by simp

text \<open>
  Beyond \<open>2^53\<close> results are rounded, a tie going to the even mantissa, and a product
  can overflow; the zeros keep their sign, which a division brings out.
\<close>

lemma rounding_examples:
  "js_sub (Fin 9007199254740996) (Fin 1) = Fin 9007199254740996
   \<and> js_add (Fin 9007199254740992) (Fin 1) = Fin 9007199254740992
   \<and> js_add (Fin 9007199254740992) (Fin 3) = Fin 9007199254740996
   \<and> js_mul (Fin 94906267) (Fin 94906267) = Fin 9007199515875288
   \<and> js_mul (Fin 0) (Fin (- 1)) = NegZero
   \<and> js_floor_div (Fin 1) NegZero = NegInf
   \<and> js_floor_div (Fin 0) (Fin (- 5)) = NegZero
   \<and> js_add NegZero (Fin 0) = Fin 0
   \<and> js_mul (Fin (2 ^ 1023)) (Fin 2) = PosInf
   \<and> js_floor_div (Fin (- 1)) (Fin 3) = Fin (- 1)"
  by code_simp

lemma js_lt_fin: "js_lt (Fin a) (Fin b) = (a < b)"
  by (simp add: js_lt_def)

lemma js_le_fin: "js_le (Fin a) (Fin b) = (a \<le> b)"
  by (auto simp: js_le_def js_lt_def)


section \<open>Evaluation of closed terms\<close>

lemma two_eq: "Suc (Suc 0) = 2"
  by simp

lemma eval_mal_numeral: "eval_mal (numeral k) = eval_step (eval_mal (pred_numeral k))"
  by (simp add: numeral_eq_Suc)

lemma call_numeral: "call rec (numeral k) ast env st = rec (pred_numeral k) ast env st"
  by (simp add: call_def numeral_eq_Suc)

lemma call_Suc: "call rec (Suc k) ast env st = rec k ast env st"
  by (simp add: call_def)

lemma call_0: "call rec 0 ast env st = Inl StackOverflow"
  by (simp add: call_def)

lemma eval_mal_sym:
  "0 < F \<Longrightarrow> eval_mal F s (Obj j (SSym x)) env st = bnd (env_get st env x) (\<lambda>v. Inr (v, st))"
  by (cases F) (simp_all add: eval_step_def bnd_def)

lemma eval_mal_int: "0 < F \<Longrightarrow> eval_mal F s (Obj j (SInt v)) env st = Inr (Obj j (SInt v), st)"
  by (cases F) (simp_all add: eval_step_def bnd_def)

lemmas eval_unfold =
  eval_step_def eval_def_def eval_let_def eval_do_def eval_if_def eval_fn_def eval_apply_def
  bnd_def ret_def alloc_def idx_def env_init_def set_native_def
  eval_mal_numeral call_numeral call_Suc call_0 two_eq

lemmas step_simps =
  eval_step_def eval_def_def eval_let_def eval_do_def eval_if_def eval_fn_def eval_apply_def
  bnd_def ret_def alloc_def idx_def env_init_def call_Suc call_0

lemma repl_summary:
  "\<exists>F. repl = ([65, 0], \<lparr>frames = F, cells = (\<lambda>a. Undefined), next_id = 87\<rparr>)
     \<and> F 65 ''do'' = None \<and> F 0 ''do'' = None"
  by (simp add: repl_def build_env_def core_env_def eval_unfold empty_store_def ns_names_def
      not_form_def load_file_form_def cong: prod.case_cong_weak)

lemma loop_repl_summary:
  "\<exists>F. loop_repl = ([65, 0], \<lparr>frames = F, cells = (\<lambda>a. Undefined), next_id = 116\<rparr>)
     \<and> F 65 ''loop'' = Some (Obj 115 (SFn (Closure [65, 0] (Obj 91 (SList [Obj 90 (SSym ''n'')])) (loop_body 92))))
     \<and> F 65 ''='' = None \<and> F 65 ''-'' = None
     \<and> F 0 ''='' = Some (Obj 6 (SFn (Native ''='')))
     \<and> F 0 ''-'' = Some (Obj 3 (SFn (Native ''-'')))"
  by (simp add: loop_repl_def repl_def build_env_def core_env_def eval_unfold empty_store_def ns_names_def
      not_form_def load_file_form_def loop_form_def loop_body_form_def loop_body_def
      cong: prod.case_cong_weak)


section \<open>Properties of the primitive library\<close>

text \<open>
  C3.  For integers \<open>a\<close> and \<open>b \<noteq> 0\<close> of magnitude below \<open>2^53\<close>, \<^verbatim>\<open>(/ a b)\<close> is the
  number \<open>q\<close> with \<open>q \<le> a / b < q + 1\<close>: the quotient is rounded towards negative
  infinity.  The zero that results from \<open>0\<close> over a negative \<open>b\<close> is the negative zero,
  which \<^verbatim>\<open>=\<close> and the comparisons do not tell from \<open>0\<close>.
\<close>

theorem ns_div_floor:
  "b \<noteq> 0 \<Longrightarrow> \<bar>a\<bar> < 2 ^ 53 \<Longrightarrow> \<bar>b\<bar> < 2 ^ 53 \<Longrightarrow>
     (\<exists>q. ns_div [Obj i (SInt (Fin a)), Obj j (SInt (Fin b))] st
              = Inr (Obj (next_id st) (SInt q), st\<lparr>next_id := next_id st + 1\<rparr>)
        \<and> q = (if a = 0 \<and> b < 0 then NegZero else Fin (a div b))
        \<and> strict_eq (JNum q) (JNum (Fin (a div b)))
        \<and> real_of_int (a div b) \<le> real_of_int a / real_of_int b
        \<and> real_of_int a / real_of_int b < real_of_int (a div b) + 1)"
proof -
  assume b: "b \<noteq> 0" and sa: "\<bar>a\<bar> < 2 ^ 53" and sb: "\<bar>b\<bar> < 2 ^ 53"
  define q where "q = (if a = 0 \<and> b < 0 then NegZero else Fin (a div b))"
  have fl: "\<lfloor>real_of_int a / real_of_int b\<rfloor> = a div b"
    by (rule floor_divide_of_int_eq)
  have quot: "js_floor_div (Fin a) (Fin b) = q"
  proof (cases "a = 0")
    case True
    then show ?thesis using b by (simp add: js_floor_div_def q_def signed_zero_def)
  next
    case False
    then have pa: "0 < \<bar>a\<bar>" and pb: "0 < \<bar>b\<bar>" using b by simp_all
    note safe = floor_fl_safe [OF pa sa pb sb]
    show ?thesis
    proof (cases "(a < 0) = (b < 0)")
      case True
      then have "\<bar>a\<bar> div \<bar>b\<bar> = a div b" by (auto simp: abs_if)
      then show ?thesis
        using True False b safe(1) by (simp add: js_floor_div_def q_def)
    next
      case False
      then have "(- \<bar>a\<bar>) div \<bar>b\<bar> = a div b"
        by (auto simp: abs_if)
      then show ?thesis
        using False \<open>a \<noteq> 0\<close> b safe(2) by (simp add: js_floor_div_def q_def)
    qed
  qed
  have run: "ns_div [Obj i (SInt (Fin a)), Obj j (SInt (Fin b))] st
      = Inr (Obj (next_id st) (SInt q), st\<lparr>next_id := next_id st + 1\<rparr>)"
    by (simp add: ns_div_def arith_def bnd_def idx_def ret_def alloc_def quot)
  have same: "strict_eq (JNum q) (JNum (Fin (a div b)))"
    by (simp add: q_def)
  have lo: "real_of_int (a div b) \<le> real_of_int a / real_of_int b"
    unfolding fl [symmetric] by (rule of_int_floor_le)
  have hi: "real_of_int a / real_of_int b < real_of_int (a div b) + 1"
    unfolding fl [symmetric] by linarith
  from run same lo hi show ?thesis unfolding q_def by blast
qed

text \<open>The instance \<^verbatim>\<open>(/ -7 2)\<close>: the result is \<open>-4\<close>, not the truncation \<open>-3\<close>.\<close>

theorem ns_div_floor_witness:
  "(2::int) \<noteq> 0 \<and> \<bar>- 7 :: int\<bar> < 2 ^ 53 \<and> \<bar>2 :: int\<bar> < 2 ^ 53
   \<and> ns_div [Obj 1 (SInt (Fin (- 7))), Obj 2 (SInt (Fin 2))] store10
       = Inr (Obj 10 (SInt (Fin (- 4))), store10\<lparr>next_id := 11\<rparr>)"
  using ns_div_floor [of 2 "- 7" 1 2 store10] by (simp add: store10_def empty_store_def)

text \<open>
  Beyond \<open>2^53\<close> the quotient is rounded before the floor is taken: the literals
  \<open>2^60\<close> and \<open>3\<close> are read exactly, the floor of \<open>2^60 / 3\<close> is \<open>384307168202282325\<close>, and
  \<^verbatim>\<open>(/ 1152921504606846976 3)\<close> is \<open>384307168202282304\<close>, the floor of the double nearest
  to the quotient.
\<close>

theorem ns_div_beyond_safe_range:
  "js_of_int 1152921504606846976 = Fin 1152921504606846976
   \<and> js_of_int 3 = Fin 3
   \<and> \<lfloor>real_of_int 1152921504606846976 / real_of_int 3\<rfloor> = (384307168202282325 :: int)
   \<and> ns_div [Obj 1 (SInt (Fin 1152921504606846976)), Obj 2 (SInt (Fin 3))] store10
       = Inr (Obj 10 (SInt (Fin 384307168202282304)), store10\<lparr>next_id := 11\<rparr>)
   \<and> ns_div [Obj 1 (SInt (Fin 1152921504606846976)), Obj 2 (SInt (Fin 3))] store10
       \<noteq> Inr (Obj 10 (SInt (Fin \<lfloor>real_of_int 1152921504606846976 / real_of_int 3\<rfloor>)),
              store10\<lparr>next_id := 11\<rparr>)"
proof -
  have "js_of_int 1152921504606846976 = Fin 1152921504606846976"
    by (simp add: js_of_int_def js_round_def floor_fl_def fl_quot_def quot_exp_def
        round_even_def floor_of_def pow2_def compute_bitlen Let_def)
  moreover have "js_of_int 3 = Fin 3"
    by (simp add: js_of_int_safe)
  moreover have "\<lfloor>real_of_int 1152921504606846976 / real_of_int 3\<rfloor> = (384307168202282325 :: int)"
    unfolding floor_divide_of_int_eq by simp
  moreover have "js_floor_div (Fin 1152921504606846976) (Fin 3) = Fin 384307168202282304"
    by (simp add: js_floor_div_def floor_fl_def fl_quot_def quot_exp_def
        round_even_def floor_of_def pow2_def compute_bitlen Let_def)
  ultimately show ?thesis
    unfolding floor_divide_of_int_eq
    by (simp add: ns_div_def arith_def bnd_def idx_def ret_def alloc_def store10_def empty_store_def)
qed

text \<open>
  C8.  \<^verbatim>\<open>count\<close> of a list or vector is the number of its elements, and \<^verbatim>\<open>count\<close> of
  any other value is the integer \<open>0\<close>, not a failure.
\<close>

theorem ns_count_lenient:
  "ns_count [Obj i (SList xs)] st = ret (SInt (Fin (int (length xs)))) st
   \<and> ns_count [Obj i (SVec xs)] st = ret (SInt (Fin (int (length xs)))) st
   \<and> (\<not> is_seq sh \<longrightarrow> ns_count [Obj i sh] st = ret (SInt (Fin 0)) st)"
  by (cases sh) (simp_all add: ns_count_def idx_def is_seq_def)

theorem ns_count_lenient_witness:
  "\<not> is_seq (SStr ''abc'')
   \<and> ns_count [Obj 5 (SStr ''abc'')] store10
       = Inr (Obj 10 (SInt (Fin 0)), store10\<lparr>next_id := 11\<rparr>)"
  using ns_count_lenient [of 5 "[]" store10 "SStr ''abc''"]
  by (simp add: is_seq_def ret_def alloc_def store10_def empty_store_def)

text \<open>
  C7.  For a list or vector with elements \<open>xs\<close> and an integer index \<open>n\<close>: \<^verbatim>\<open>nth\<close> throws
  the string \<^verbatim>\<open>nth: index out of range\<close> when \<open>n\<close> is at least the length of \<open>xs\<close>, and
  returns the element at position \<open>n\<close>, counted from zero, when \<open>0 \<le> n < length xs\<close>.
\<close>

theorem ns_nth_range:
  assumes "isListOrVec s = Inr xs"
  shows "(int (length xs) \<le> n \<longrightarrow>
            ns_nth [s, Obj k (SInt (Fin n))] st
              = Inl (Thrown (Obj (next_id st) (SStr ''nth: index out of range''))))
       \<and> (0 \<le> n \<and> n < int (length xs) \<longrightarrow>
            ns_nth [s, Obj k (SInt (Fin n))] st = Inr (xs ! nat n, st))"
proof -
  have "nat n < length xs" if "0 \<le> n" "n < int (length xs)"
    using that by linarith
  then show ?thesis
    using assms by (auto simp: ns_nth_def idx_def bnd_def js_le_fin alloc_def)
qed

theorem ns_nth_range_witness:
  "isListOrVec (Obj 9 (SList [Obj 1 (SInt (Fin 10)), Obj 2 (SInt (Fin 20)), Obj 3 (SInt (Fin 30))]))
     = Inr [Obj 1 (SInt (Fin 10)), Obj 2 (SInt (Fin 20)), Obj 3 (SInt (Fin 30))]
   \<and> ns_nth [Obj 9 (SList [Obj 1 (SInt (Fin 10)), Obj 2 (SInt (Fin 20)), Obj 3 (SInt (Fin 30))]),
             Obj 4 (SInt (Fin 3))] store10
       = Inl (Thrown (Obj 10 (SStr ''nth: index out of range'')))
   \<and> ns_nth [Obj 9 (SList [Obj 1 (SInt (Fin 10)), Obj 2 (SInt (Fin 20)), Obj 3 (SInt (Fin 30))]),
             Obj 4 (SInt (Fin 1))] store10
       = Inr (Obj 2 (SInt (Fin 20)), store10)"
  using
    ns_nth_range [of "Obj 9 (SList [Obj 1 (SInt (Fin 10)), Obj 2 (SInt (Fin 20)), Obj 3 (SInt (Fin 30))])"
      "[Obj 1 (SInt (Fin 10)), Obj 2 (SInt (Fin 20)), Obj 3 (SInt (Fin 30))]" 3 4 store10]
    ns_nth_range [of "Obj 9 (SList [Obj 1 (SInt (Fin 10)), Obj 2 (SInt (Fin 20)), Obj 3 (SInt (Fin 30))])"
      "[Obj 1 (SInt (Fin 10)), Obj 2 (SInt (Fin 20)), Obj 3 (SInt (Fin 30))]" 1 4 store10]
  by (simp add: store10_def empty_store_def)

lemma every_eq_pairwise:
  "length xs = length ys \<Longrightarrow> (\<forall>n < length xs. mal_eq st (xs ! n) (ys ! n) = Inr True)
     \<Longrightarrow> every_eq st xs ys = Inr True"
proof (induction xs arbitrary: ys)
  case Nil
  then show ?case by simp
next
  case (Cons x xs)
  then obtain y ys' where ys: "ys = y # ys'" by (cases ys) auto
  from Cons.prems ys have hd: "mal_eq st x y = Inr True" by fastforce
  from Cons.prems ys have tl: "\<forall>n < length xs. mal_eq st (xs ! n) (ys' ! n) = Inr True" by fastforce
  from Cons.prems ys have len: "length xs = length ys'" by simp
  show ?case using hd Cons.IH [OF len tl] by (simp add: ys idx_def)
qed

text \<open>
  C4.  \<^verbatim>\<open>=\<close> answers true on two sequences (a list and a vector, in either order) of
  equal length whose elements are pairwise equal under \<^verbatim>\<open>=\<close>, and answers false on two
  values of different kinds that are not both sequences.
\<close>

theorem eq_list_vector_and_kinds:
  "(is_seq sa \<and> is_seq sb \<and> length (items sa) = length (items sb)
      \<and> (\<forall>n < length (items sa). mal_eq st (items sa ! n) (items sb ! n) = Inr True)
      \<longrightarrow> ns_eq [Obj i sa, Obj j sb] st = ret (SBool True) st)
   \<and> (type_tag sa \<noteq> type_tag sb \<and> \<not> (is_seq sa \<and> is_seq sb)
      \<longrightarrow> ns_eq [Obj i sa, Obj j sb] st = ret (SBool False) st)"
proof (intro conjI impI)
  assume h: "is_seq sa \<and> is_seq sb \<and> length (items sa) = length (items sb)
      \<and> (\<forall>n < length (items sa). mal_eq st (items sa ! n) (items sb ! n) = Inr True)"
  then have "every_eq st (items sa) (items sb) = Inr True"
    by (intro every_eq_pairwise) auto
  with h show "ns_eq [Obj i sa, Obj j sb] st = ret (SBool True) st"
    by (simp add: ns_eq_def idx_def bnd_def)
next
  assume "type_tag sa \<noteq> type_tag sb \<and> \<not> (is_seq sa \<and> is_seq sb)"
  then show "ns_eq [Obj i sa, Obj j sb] st = ret (SBool False) st"
    by (auto simp: ns_eq_def idx_def bnd_def)
qed

text \<open>\<^verbatim>\<open>(= (list 1 2 3) (vector 1 2 3))\<close> is true and \<^verbatim>\<open>(= 1 "1")\<close> is false.\<close>

theorem eq_list_vector_and_kinds_witness:
  "ns_eq [Obj 4 (SList [Obj 1 (SInt (Fin 1)), Obj 2 (SInt (Fin 2)), Obj 3 (SInt (Fin 3))]),
          Obj 8 (SVec [Obj 5 (SInt (Fin 1)), Obj 6 (SInt (Fin 2)), Obj 7 (SInt (Fin 3))])] store10
     = ret (SBool True) store10
   \<and> ns_eq [Obj 1 (SInt (Fin 1)), Obj 2 (SStr ''1'')] store10 = ret (SBool False) store10"
proof -
  have "\<forall>n < 3. mal_eq store10
          ([Obj 1 (SInt (Fin 1)), Obj 2 (SInt (Fin 2)), Obj 3 (SInt (Fin 3))] ! n)
          ([Obj 5 (SInt (Fin 1)), Obj 6 (SInt (Fin 2)), Obj 7 (SInt (Fin 3))] ! n) = Inr True"
    by (simp add: less_Suc_eq numeral_3_eq_3 is_seq_def)
  then show ?thesis
    using
      eq_list_vector_and_kinds [of "SList [Obj 1 (SInt (Fin 1)), Obj 2 (SInt (Fin 2)), Obj 3 (SInt (Fin 3))]"
        "SVec [Obj 5 (SInt (Fin 1)), Obj 6 (SInt (Fin 2)), Obj 7 (SInt (Fin 3))]" store10 4 8]
      eq_list_vector_and_kinds [of "SInt (Fin 1)" "SStr ''1''" store10 1 2]
    by (simp add: is_seq_def)
qed

text \<open>
  C1.  The spec calls \<^verbatim>\<open>=\<close> total.  On two maps with one key each, \<^verbatim>\<open>"a"\<close> in the
  first and \<^verbatim>\<open>"b"\<close> in the second, the key counts agree, the value under \<^verbatim>\<open>"a"\<close> is
  looked up in the second map, and the comparison with the absent value fails with a
  host TypeError instead of answering false: so does \<^verbatim>\<open>(= {"a" 1} {"b" 1})\<close> in the
  interactive environment.
\<close>

theorem eq_maps_differing_keys_fails:
  "ns_eq [Obj 2 (SMap [(''a'', Obj 1 (SInt (Fin 1)))]),
          Obj 4 (SMap [(''b'', Obj 3 (SInt (Fin 1)))])] st = Inl JsTypeError
   \<and> (case read_form maps_form (snd repl) of
         (ast, st) \<Rightarrow> answer_shape (eval_mal 3 2 ast (fst repl) st))
       = Inl JsTypeError"
proof
  show "ns_eq [Obj 2 (SMap [(''a'', Obj 1 (SInt (Fin 1)))]),
          Obj 4 (SMap [(''b'', Obj 3 (SInt (Fin 1)))])] st = Inl JsTypeError"
    by (simp add: ns_eq_def idx_def bnd_def is_seq_def field_def)
  show "(case read_form maps_form (snd repl) of
         (ast, st) \<Rightarrow> answer_shape (eval_mal 3 2 ast (fst repl) st))
       = Inl JsTypeError"
    by (simp add: repl_def build_env_def core_env_def eval_unfold empty_store_def ns_names_def
        not_form_def load_file_form_def maps_form_def ns_def ns_eq_def is_seq_def field_def
        cong: prod.case_cong_weak)
qed

text \<open>
  C9.  The spec has two distinct cells never equal.  In the root environment,
  \<^verbatim>\<open>(do (def! v 1) (= (atom v) (atom v)))\<close> creates two cells and answers true: \<^verbatim>\<open>=\<close>
  compares the \<^verbatim>\<open>value\<close> fields of the two cells, which hold the same object.
\<close>

theorem eq_distinct_atoms_shared_contents:
  "(case read_form atoms_form (snd repl) of
      (ast, st) \<Rightarrow> answer_shape (eval_mal 4 3 ast (fst repl) st))
   = Inr (Some (SBool True))"
  by (simp add: repl_def build_env_def core_env_def eval_unfold empty_store_def ns_names_def
      not_form_def load_file_form_def atoms_form_def ns_def ns_eq_def ns_atom_def is_seq_def
      cong: prod.case_cong_weak)

section \<open>Properties of the evaluator\<close>

lemma falsy_iff:
  "(\<not> strict_eq (value_field st i v) (JBool False) \<and> \<not> strict_eq (value_field st i v) JNull)
     = (v \<noteq> SNil \<and> v \<noteq> SBool False)"
  by (cases v) auto

text \<open>
  C6.  In \<^verbatim>\<open>(if cond then [else])\<close>, when the condition evaluates to a value: every
  value other than nil and boolean false selects \<^verbatim>\<open>then\<close>, on which the loop continues;
  nil or false with no \<^verbatim>\<open>else\<close> returns nil; nil or false with an \<^verbatim>\<open>else\<close> continues on
  \<^verbatim>\<open>else\<close>.
\<close>

theorem eval_if_branches:
  assumes "eval_mal n s c env st = Inr (Obj i v, st')"
  shows "(v \<noteq> SNil \<and> v \<noteq> SBool False \<longrightarrow>
            eval_mal (Suc n) (Suc s) (Obj j (SList (Obj h (SSym ''if'') # c # t # rest))) env st
              = eval_mal n (Suc s) t env st')
       \<and> (v = SNil \<or> v = SBool False \<longrightarrow>
            eval_mal (Suc n) (Suc s) (Obj j (SList [Obj h (SSym ''if''), c, t])) env st
              = ret SNil st')
       \<and> (v = SNil \<or> v = SBool False \<longrightarrow>
            eval_mal (Suc n) (Suc s) (Obj j (SList [Obj h (SSym ''if''), c, t, Obj k e])) env st
              = eval_mal n (Suc s) (Obj k e) env st')"
proof -
  have step: "eval_mal (Suc n) (Suc s) (Obj j (SList (Obj h (SSym ''if'') # c # xs))) env st
      = eval_if (eval_mal n) (Suc s) (Obj h (SSym ''if'') # c # xs) env st" for xs
    by (simp add: eval_step_def bnd_def idx_def)
  have cond: "call (eval_mal n) (Suc s) (idx (Obj h (SSym ''if'') # c # xs) 1) env st
      = Inr (Obj i v, st')" for xs
    using assms by (simp add: call_def idx_def)
  show ?thesis
    unfolding step eval_if_def cond
    using falsy_iff [of st' i v]
    by (auto simp: bnd_def idx_def)
qed

text \<open>\<^verbatim>\<open>(if 0 1 2)\<close> is 1, \<^verbatim>\<open>(if nil 1)\<close> is nil, \<^verbatim>\<open>(if false 1 2)\<close> is 2.\<close>

theorem eval_if_branches_witness:
  "eval_mal 1 0 (Obj 1 (SInt (Fin 0))) [0] store10 = Inr (Obj 1 (SInt (Fin 0)), store10)
   \<and> eval_mal 2 1 (Obj 9 (SList [Obj 8 (SSym ''if''), Obj 1 (SInt (Fin 0)),
                                  Obj 2 (SInt (Fin 1)), Obj 3 (SInt (Fin 2))])) [0] store10
       = Inr (Obj 2 (SInt (Fin 1)), store10)
   \<and> eval_mal 1 0 (Obj 1 SNil) [0] store10 = Inr (Obj 1 SNil, store10)
   \<and> eval_mal 2 1 (Obj 9 (SList [Obj 8 (SSym ''if''), Obj 1 SNil, Obj 2 (SInt (Fin 1))])) [0] store10
       = Inr (Obj 10 SNil, store10\<lparr>next_id := 11\<rparr>)
   \<and> eval_mal 1 0 (Obj 1 (SBool False)) [0] store10 = Inr (Obj 1 (SBool False), store10)
   \<and> eval_mal 2 1 (Obj 9 (SList [Obj 8 (SSym ''if''), Obj 1 (SBool False),
                                  Obj 2 (SInt (Fin 1)), Obj 3 (SInt (Fin 2))])) [0] store10
       = Inr (Obj 3 (SInt (Fin 2)), store10)"
proof -
  have c1: "eval_mal (Suc 0) 0 (Obj 1 (SInt (Fin 0))) [0] store10
      = Inr (Obj 1 (SInt (Fin 0)), store10)"
    by (simp add: eval_step_def bnd_def)
  have c2: "eval_mal (Suc 0) 0 (Obj 1 SNil) [0] store10 = Inr (Obj 1 SNil, store10)"
    by (simp add: eval_step_def bnd_def)
  have c3: "eval_mal (Suc 0) 0 (Obj 1 (SBool False)) [0] store10
      = Inr (Obj 1 (SBool False), store10)"
    by (simp add: eval_step_def bnd_def)
  have r: "eval_mal (Suc 0) (Suc 0) (Obj k (SInt v)) [0] store10
      = Inr (Obj k (SInt v), store10)" for k v
    by (simp add: eval_step_def bnd_def)
  show ?thesis
    using eval_if_branches [OF c1, of 9 8 "Obj 2 (SInt (Fin 1))" "[Obj 3 (SInt (Fin 2))]" 7 SNil]
      eval_if_branches [OF c2, of 9 8 "Obj 2 (SInt (Fin 1))" "[]" 7 SNil]
      eval_if_branches [OF c3, of 9 8 "Obj 2 (SInt (Fin 1))" "[]" 3 "SInt (Fin 2)"]
      c1 c2 c3 r
    by (simp add: two_eq [symmetric] ret_def alloc_def store10_def empty_store_def)
qed

lemma let_bindings_pairs:
  "let_bindings rec (Suc s) (binding_list ps) let_env st = let_spec rec s ps let_env st"
proof (induction ps arbitrary: st)
  case Nil
  show ?case by simp
next
  case (Cons a ps)
  obtain p x e where a: "a = (p, x, e)" by (cases a)
  show ?case
    by (simp add: a bnd_def idx_def call_Suc Cons.IH split: sum.splits prod.splits)
qed

lemma let_spec_snoc:
  "let_spec rec s (ps @ [(p, x, e)]) let_env st
     = bnd (let_spec rec s ps let_env st) (\<lambda>st1.
         (case rec s e let_env st1 of
            Inl err \<Rightarrow> Inl err
          | Inr (v, st2) \<Rightarrow> Inr (env_set let_env x v st2)))"
proof (induction ps arbitrary: st)
  case Nil
  show ?case by (simp add: bnd_def split: sum.splits prod.splits)
next
  case (Cons a ps)
  obtain q y d where a: "a = (q, y, d)" by (cases a)
  show ?case
    by (simp add: a Cons.IH bnd_def split: sum.splits prod.splits)
qed

text \<open>
  C5.  \<^verbatim>\<open>let*\<close> creates a child frame of the current environment and, whatever the
  number of bindings, binds them in order: the loop over the binding list does what
  sequential binding says, each expression being evaluated in the child frame in the
  store left by the bindings before it, and then continues on the body in the child
  frame.  The last expression of a binding list is evaluated after all the bindings
  before it have been made.  Binding a symbol in the child frame makes a lookup from
  the child frame find the new value, whatever the outer frames bind, and changes no
  other frame.  \<^verbatim>\<open>(let* (x 1) (let* (x 2) x))\<close> evaluates to the object \<open>2\<close>, the frame of
  the outer \<^verbatim>\<open>let*\<close> still binds \<open>x\<close> to \<open>1\<close>, and no frame that existed before is changed.
\<close>

theorem eval_let_sequential_shadow:
  "eval_mal (Suc n) (Suc s)
       (Obj j (SList [Obj h (SSym ''let*''), Obj b (SList (binding_list ps)), body])) env st
     = bnd (let_spec (eval_mal n) s ps (next_id st # env)
              (st\<lparr>frames := (frames st)(next_id st := Map.empty), next_id := next_id st + 1\<rparr>))
         (\<lambda>st'. eval_mal n (Suc s) body (next_id st # env) st')
   \<and> let_spec rec s (ps @ [(p, x, e)]) let_env stz
       = bnd (let_spec rec s ps let_env stz) (\<lambda>st1.
           (case rec s e let_env st1 of
              Inl err \<Rightarrow> Inl err
            | Inr (v, st2) \<Rightarrow> Inr (env_set let_env x v st2)))
   \<and> env_get (env_set (c # outer) x v sta) (c # outer) x = Inr v
   \<and> (\<forall>a. a \<noteq> c \<longrightarrow> frames (env_set (c # outer) x v sta) a = frames sta a)
   \<and> (\<exists>st'. eval_mal (Suc (Suc (Suc n))) (Suc s)
                (Obj j (SList [Obj h (SSym ''let*''),
                   Obj b (SList [Obj p (SSym ''x''), Obj ia (SInt (Fin 1))]),
                   Obj j' (SList [Obj h' (SSym ''let*''),
                     Obj b' (SList [Obj p' (SSym ''x''), Obj ib (SInt (Fin 2))]),
                     Obj r (SSym ''x'')])])) env st
              = Inr (Obj ib (SInt (Fin 2)), st')
          \<and> frames st' (next_id st) ''x'' = Some (Obj ia (SInt (Fin 1)))
          \<and> frames st' (next_id st + 1) ''x'' = Some (Obj ib (SInt (Fin 2)))
          \<and> (\<forall>a. a \<noteq> next_id st \<and> a \<noteq> next_id st + 1 \<longrightarrow> frames st' a = frames st a))"
proof (intro conjI)
  show "eval_mal (Suc n) (Suc s)
       (Obj j (SList [Obj h (SSym ''let*''), Obj b (SList (binding_list ps)), body])) env st
     = bnd (let_spec (eval_mal n) s ps (next_id st # env)
              (st\<lparr>frames := (frames st)(next_id st := Map.empty), next_id := next_id st + 1\<rparr>))
         (\<lambda>st'. eval_mal n (Suc s) body (next_id st # env) st')"
    by (simp add: eval_step_def eval_let_def env_init_def idx_def let_bindings_pairs bnd_def)
  show "let_spec rec s (ps @ [(p, x, e)]) let_env stz
       = bnd (let_spec rec s ps let_env stz) (\<lambda>st1.
           (case rec s e let_env st1 of
              Inl err \<Rightarrow> Inl err
            | Inr (v, st2) \<Rightarrow> Inr (env_set let_env x v st2)))"
    by (rule let_spec_snoc)
  show "env_get (env_set (c # outer) x v sta) (c # outer) x = Inr v"
    by simp
  show "\<forall>a. a \<noteq> c \<longrightarrow> frames (env_set (c # outer) x v sta) a = frames sta a"
    by simp
  show "\<exists>st'. eval_mal (Suc (Suc (Suc n))) (Suc s)
                (Obj j (SList [Obj h (SSym ''let*''),
                   Obj b (SList [Obj p (SSym ''x''), Obj ia (SInt (Fin 1))]),
                   Obj j' (SList [Obj h' (SSym ''let*''),
                     Obj b' (SList [Obj p' (SSym ''x''), Obj ib (SInt (Fin 2))]),
                     Obj r (SSym ''x'')])])) env st
              = Inr (Obj ib (SInt (Fin 2)), st')
          \<and> frames st' (next_id st) ''x'' = Some (Obj ia (SInt (Fin 1)))
          \<and> frames st' (next_id st + 1) ''x'' = Some (Obj ib (SInt (Fin 2)))
          \<and> (\<forall>a. a \<noteq> next_id st \<and> a \<noteq> next_id st + 1 \<longrightarrow> frames st' a = frames st a)"
    by (simp add: step_simps)
qed

text \<open>
  \<^verbatim>\<open>(let* (x 7 y x z y) z)\<close> is 7: the second binding sees the first and the third sees
  the second; the three symbols are bound in the child frame \<open>10\<close> and the root frame
  \<open>0\<close> is as it was.
\<close>

theorem eval_let_sequential_shadow_witness:
  "eval_mal 2 1
      (Obj 8 (SList [Obj 6 (SSym ''let*''),
         Obj 7 (SList [Obj 0 (SSym ''x''), Obj 1 (SInt (Fin 7)),
                       Obj 2 (SSym ''y''), Obj 3 (SSym ''x''),
                       Obj 4 (SSym ''z''), Obj 5 (SSym ''y'')]),
         Obj 9 (SSym ''z'')])) [0] store10
     = Inr (Obj 1 (SInt (Fin 7)),
            store10\<lparr>frames := (frames store10)
                        (10 := [''x'' \<mapsto> Obj 1 (SInt (Fin 7)), ''y'' \<mapsto> Obj 1 (SInt (Fin 7)),
                                ''z'' \<mapsto> Obj 1 (SInt (Fin 7))]),
                     next_id := 11\<rparr>)
   \<and> env_get (env_set [10, 0] ''x'' (Obj 1 (SInt (Fin 7))) store10) [10, 0] ''x''
       = Inr (Obj 1 (SInt (Fin 7)))
   \<and> frames (env_set [10, 0] ''x'' (Obj 1 (SInt (Fin 7))) store10) 0 = frames store10 0"
proof -
  note inst = eval_let_sequential_shadow [where n = "Suc 0" and s = 0 and j = 8 and h = 6 and b = 7
      and ps = "[(0, ''x'', Obj 1 (SInt (Fin 7))), (2, ''y'', Obj 3 (SSym ''x'')),
                 (4, ''z'', Obj 5 (SSym ''y''))]"
      and body = "Obj 9 (SSym ''z'')" and env = "[0]" and st = store10
      and c = 10 and outer = "[0]" and x = "''x''" and v = "Obj 1 (SInt (Fin 7))" and sta = store10]
  have n0: "next_id store10 = 10" by (simp add: store10_def)
  from inst [THEN conjunct1]
  have run: "eval_mal 2 1
      (Obj 8 (SList [Obj 6 (SSym ''let*''),
         Obj 7 (SList [Obj 0 (SSym ''x''), Obj 1 (SInt (Fin 7)),
                       Obj 2 (SSym ''y''), Obj 3 (SSym ''x''),
                       Obj 4 (SSym ''z''), Obj 5 (SSym ''y'')]),
         Obj 9 (SSym ''z'')])) [0] store10
     = Inr (Obj 1 (SInt (Fin 7)),
            store10\<lparr>frames := (frames store10)
                        (10 := [''x'' \<mapsto> Obj 1 (SInt (Fin 7)), ''y'' \<mapsto> Obj 1 (SInt (Fin 7)),
                                ''z'' \<mapsto> Obj 1 (SInt (Fin 7))]),
                     next_id := 11\<rparr>)"
    by (simp add: numeral_2_eq_2 n0 eval_mal_sym eval_mal_int bnd_def store10_def empty_store_def
        del: eval_mal.simps)
  from inst [THEN conjunct2, THEN conjunct2, THEN conjunct1]
  have vis: "env_get (env_set [10, 0] ''x'' (Obj 1 (SInt (Fin 7))) store10) [10, 0] ''x''
       = Inr (Obj 1 (SInt (Fin 7)))" .
  from inst [THEN conjunct2, THEN conjunct2, THEN conjunct2, THEN conjunct1]
  have out: "frames (env_set [10, 0] ''x'' (Obj 1 (SInt (Fin 7))) store10) 0 = frames store10 0"
    by simp
  from run vis out show ?thesis
    by (intro conjI)
qed

lemma env_get_lookup: "env_get st env k = lookup (frames st) env k"
  by (induction env) (auto split: option.splits)

lemma lookup_upd_fresh: "m \<notin> set env \<Longrightarrow> lookup (F(m := x)) env k = lookup F env k"
  by (induction env) (auto split: option.splits)

lemma env_get_unbound:
  "(\<forall>a \<in> set env. frames st a k = None) \<Longrightarrow> env_get st env k = Inl (UnboundSymbol k)"
  by (induction env) auto

lemmas loop_body_eq = loop_body_def [unfolded loop_body_form_def]

lemma loop_iter:
  assumes eq: "lookup (frames st) cenv ''='' = Inr (Obj e (SFn (Native ''='')))"
    and sub: "lookup (frames st) cenv ''-'' = Inr (Obj d (SFn (Native ''-'')))"
    and loop: "lookup (frames st) cenv ''loop''
                 = Inr (Obj c (SFn (Closure cenv (Obj q (SList [Obj p (SSym ''n'')])) (loop_body b))))"
    and below: "\<forall>x\<in>set cenv. x < next_id st"
    and a: "a < next_id st"
    and n: "frames st a = [''n'' \<mapsto> Obj i (SInt (Fin (int (Suc k))))]"
    and kb: "k < 2 ^ 53"
    and F: "0 < F"
  shows "eval_mal (Suc (Suc (Suc (Suc F)))) (Suc (Suc s)) (loop_body b) (a # cenv) st
       = eval_mal F (Suc (Suc s)) (loop_body b) ((next_id st + 6) # cenv)
           (st\<lparr>frames := (frames st)
                  (next_id st + 2 := [''m'' \<mapsto> Obj (next_id st + 4) (SInt (Fin (int k)))],
                   next_id st + 6 := [''n'' \<mapsto> Obj (next_id st + 4) (SInt (Fin (int k)))]),
                next_id := next_id st + 7\<rparr>)"
proof -
  have fresh: "next_id st \<notin> set cenv" "Suc (next_id st) \<notin> set cenv"
    "Suc (Suc (next_id st)) \<notin> set cenv" "Suc (Suc (Suc (next_id st))) \<notin> set cenv"
    "Suc (Suc (Suc (Suc (next_id st)))) \<notin> set cenv"
    "Suc (Suc (Suc (Suc (Suc (next_id st))))) \<notin> set cenv"
    "Suc (Suc (Suc (Suc (Suc (Suc (next_id st)))))) \<notin> set cenv"
    using below by fastforce+
  show ?thesis
    using a F
    by (simp add: loop_body_eq step_simps empty_store_def env_get_lookup lookup_upd_fresh
        eval_mal_sym eval_mal_int fresh eq sub loop n ns_def ns_eq_def ns_sub_def arith_def
        js_sub_one [OF kb] is_seq_def eval_nat_numeral
        cong: prod.case_cong_weak)
qed

lemma loop_last:
  assumes eq: "lookup (frames st) cenv ''='' = Inr (Obj e (SFn (Native ''='')))"
    and below: "\<forall>x\<in>set cenv. x < next_id st"
    and a: "a < next_id st"
    and n: "frames st a = [''n'' \<mapsto> Obj i (SInt (Fin 0))]"
  shows "answer_shape (eval_mal (Suc (Suc (Suc F))) (Suc (Suc s)) (loop_body b) (a # cenv) st)
       = Inr (Some (SInt (Fin 0)))"
proof -
  have fresh: "next_id st \<notin> set cenv" "Suc (next_id st) \<notin> set cenv"
    using below by fastforce+
  show ?thesis
    using a
    by (simp add: loop_body_eq step_simps empty_store_def env_get_lookup lookup_upd_fresh
        fresh eq n ns_def ns_eq_def is_seq_def
        cong: prod.case_cong_weak)
qed

lemma loop_body_runs:
  assumes eq: "lookup (frames st) cenv ''='' = Inr (Obj e (SFn (Native ''='')))"
    and sub: "lookup (frames st) cenv ''-'' = Inr (Obj d (SFn (Native ''-'')))"
    and loop: "lookup (frames st) cenv ''loop''
                 = Inr (Obj c (SFn (Closure cenv (Obj q (SList [Obj p (SSym ''n'')])) (loop_body b))))"
    and below: "\<forall>x\<in>set cenv. x < next_id st"
    and a: "a < next_id st"
    and n: "frames st a = [''n'' \<mapsto> Obj i (SInt (Fin (int k)))]"
    and kb: "k \<le> 2 ^ 53"
  shows "answer_shape (eval_mal (4 * k + 3 + x) (Suc (Suc s)) (loop_body b) (a # cenv) st)
       = Inr (Some (SInt (Fin 0)))"
  using assms
proof (induction k arbitrary: st a i)
  case 0
  from "0.prems"(6) have n0: "frames st a = [''n'' \<mapsto> Obj i (SInt (Fin 0))]"
    by (simp only: of_nat_0)
  have fuel: "4 * 0 + 3 + x = Suc (Suc (Suc x))" by simp
  show ?case
    unfolding fuel by (rule loop_last [OF "0.prems"(1) "0.prems"(4) "0.prems"(5) n0])
next
  case (Suc k)
  let ?st = "st\<lparr>frames := (frames st)
                  (next_id st + 2 := [''m'' \<mapsto> Obj (next_id st + 4) (SInt (Fin (int k)))],
                   next_id st + 6 := [''n'' \<mapsto> Obj (next_id st + 4) (SInt (Fin (int k)))]),
                next_id := next_id st + 7\<rparr>"
  have fresh: "next_id st + 2 \<notin> set cenv" "next_id st + 6 \<notin> set cenv"
    using Suc.prems(4) by fastforce+
  have fuel: "4 * Suc k + 3 + x = Suc (Suc (Suc (Suc (4 * k + 3 + x))))" by simp
  have kb: "k < 2 ^ 53" using Suc.prems(7) by simp
  have iter: "eval_mal (4 * Suc k + 3 + x) (Suc (Suc s)) (loop_body b) (a # cenv) st
      = eval_mal (4 * k + 3 + x) (Suc (Suc s)) (loop_body b) ((next_id st + 6) # cenv) ?st"
    unfolding fuel
    by (rule loop_iter [OF Suc.prems(1) Suc.prems(2) Suc.prems(3) Suc.prems(4) Suc.prems(5) Suc.prems(6) kb])
      simp
  have "answer_shape (eval_mal (4 * k + 3 + x) (Suc (Suc s)) (loop_body b) ((next_id st + 6) # cenv) ?st)
      = Inr (Some (SInt (Fin 0)))"
  proof (rule Suc.IH)
    show "lookup (frames ?st) cenv ''='' = Inr (Obj e (SFn (Native ''='')))"
      using Suc.prems(1) fresh by (simp add: lookup_upd_fresh)
    show "lookup (frames ?st) cenv ''-'' = Inr (Obj d (SFn (Native ''-'')))"
      using Suc.prems(2) fresh by (simp add: lookup_upd_fresh)
    show "lookup (frames ?st) cenv ''loop''
            = Inr (Obj c (SFn (Closure cenv (Obj q (SList [Obj p (SSym ''n'')])) (loop_body b))))"
      using Suc.prems(3) fresh by (simp add: lookup_upd_fresh)
    show "\<forall>x\<in>set cenv. x < next_id ?st"
      using Suc.prems(4) by fastforce
    show "next_id st + 6 < next_id ?st" by simp
    show "frames ?st (next_id st + 6) = [''n'' \<mapsto> Obj (next_id st + 4) (SInt (Fin (int k)))]"
      by simp
    show "k \<le> 2 ^ 53" using kb by simp
  qed
  with iter show ?case by simp
qed

lemma loop_call_runs:
  assumes eq: "env_get st cenv ''='' = Inr (Obj e (SFn (Native ''='')))"
    and sub: "env_get st cenv ''-'' = Inr (Obj d (SFn (Native ''-'')))"
    and loop: "env_get st cenv ''loop''
                 = Inr (Obj c (SFn (Closure cenv (Obj q (SList [Obj p (SSym ''n'')])) (loop_body b))))"
    and below: "\<forall>a\<in>set cenv. a < next_id st"
    and Nb: "N \<le> 2 ^ 53"
  shows "answer_shape
           (eval_mal (4 * N + 4 + x) (Suc (Suc z))
              (Obj i (SList [Obj j (SSym ''loop''), Obj k (SInt (Fin (int N)))])) cenv st)
         = Inr (Some (SInt (Fin 0)))"
proof -
  let ?st = "st\<lparr>frames := (frames st)(next_id st + 1 := [''n'' \<mapsto> Obj k (SInt (Fin (int N)))]),
                next_id := next_id st + 2\<rparr>"
  have fresh: "next_id st + 1 \<notin> set cenv"
    using below by fastforce
  have fuel: "4 * N + 4 + x = Suc (4 * N + 3 + x)" by simp
  have pos: "0 < 4 * N + 3 + x" by simp
  have step: "eval_mal (Suc F) (Suc (Suc z))
        (Obj i (SList [Obj j (SSym ''loop''), Obj k (SInt (Fin (int N)))])) cenv st
      = eval_mal F (Suc (Suc z)) (loop_body b) ((next_id st + 1) # cenv) ?st" if "0 < F" for F
    using that loop
    by (simp add: step_simps eval_mal_sym eval_mal_int cong: prod.case_cong_weak)
  have first: "eval_mal (4 * N + 4 + x) (Suc (Suc z))
        (Obj i (SList [Obj j (SSym ''loop''), Obj k (SInt (Fin (int N)))])) cenv st
      = eval_mal (4 * N + 3 + x) (Suc (Suc z)) (loop_body b) ((next_id st + 1) # cenv) ?st"
    unfolding fuel by (rule step [OF pos])
  have "answer_shape (eval_mal (4 * N + 3 + x) (Suc (Suc z)) (loop_body b) ((next_id st + 1) # cenv) ?st)
      = Inr (Some (SInt (Fin 0)))"
  proof (rule loop_body_runs)
    show "lookup (frames ?st) cenv ''='' = Inr (Obj e (SFn (Native ''='')))"
      using eq fresh by (simp add: lookup_upd_fresh env_get_lookup)
    show "lookup (frames ?st) cenv ''-'' = Inr (Obj d (SFn (Native ''-'')))"
      using sub fresh by (simp add: lookup_upd_fresh env_get_lookup)
    show "lookup (frames ?st) cenv ''loop''
            = Inr (Obj c (SFn (Closure cenv (Obj q (SList [Obj p (SSym ''n'')])) (loop_body b))))"
      using loop fresh by (simp add: lookup_upd_fresh env_get_lookup)
    show "\<forall>x\<in>set cenv. x < next_id ?st"
      using below by fastforce
    show "next_id st + 1 < next_id ?st" by simp
    show "frames ?st (next_id st + 1) = [''n'' \<mapsto> Obj k (SInt (Fin (int N)))]"
      by simp
    show "N \<le> 2 ^ 53" by (rule Nb)
  qed
  with first show ?thesis by simp
qed

text \<open>
  C10.  \<^verbatim>\<open>(do)\<close> with no body expression continues the loop on the symbol \<^verbatim>\<open>do\<close> itself,
  so its result is the lookup of \<^verbatim>\<open>do\<close> in the environment; when no frame of the chain
  binds \<^verbatim>\<open>do\<close> the evaluation fails with the unbound-symbol error for \<^verbatim>\<open>do\<close>, and does
  not return nil.
\<close>

theorem eval_do_empty:
  "eval_mal (Suc (Suc n)) s (Obj j (SList [Obj h (SSym ''do'')])) env st
     = (case env_get st env ''do'' of Inl e \<Rightarrow> Inl e | Inr v \<Rightarrow> Inr (v, st))
   \<and> ((\<forall>a \<in> set env. frames st a ''do'' = None) \<longrightarrow>
        eval_mal (Suc (Suc n)) s (Obj j (SList [Obj h (SSym ''do'')])) env st
          = Inl (UnboundSymbol ''do''))"
proof -
  have "eval_mal (Suc (Suc n)) s (Obj j (SList [Obj h (SSym ''do'')])) env st
      = (case env_get st env ''do'' of Inl e \<Rightarrow> Inl e | Inr v \<Rightarrow> Inr (v, st))"
    by (simp add: eval_step_def eval_do_def bnd_def idx_def)
  then show ?thesis
    by (simp add: env_get_unbound)
qed

text \<open>In the environment of the interactive loop no frame binds \<^verbatim>\<open>do\<close>.\<close>

theorem eval_do_empty_witness:
  "fst repl = [65, 0]
   \<and> fst do_call = Obj 88 (SList [Obj 87 (SSym ''do'')])
   \<and> frames (snd do_call) 65 ''do'' = None
   \<and> frames (snd do_call) 0 ''do'' = None
   \<and> eval_mal 2 0 (fst do_call) (fst repl) (snd do_call) = Inl (UnboundSymbol ''do'')"
proof -
  from repl_summary obtain F where
    r: "repl = ([65, 0], \<lparr>frames = F, cells = (\<lambda>a. Undefined), next_id = 87\<rparr>)"
    and f: "F 65 ''do'' = None" "F 0 ''do'' = None"
    by blast
  have d: "do_call = (Obj 88 (SList [Obj 87 (SSym ''do'')]),
                      \<lparr>frames = F, cells = (\<lambda>a. Undefined), next_id = 89\<rparr>)"
    by (simp add: do_call_def r alloc_def)
  have u: "\<forall>a \<in> set [65, 0]. frames \<lparr>frames = F, cells = (\<lambda>a. Undefined), next_id = 89\<rparr> a ''do'' = None"
    using f by simp
  from eval_do_empty [of 0 0 88 87 "[65, 0]" "\<lparr>frames = F, cells = (\<lambda>a. Undefined), next_id = 89\<rparr>"] u
  have "eval_mal (Suc (Suc 0)) 0 (Obj 88 (SList [Obj 87 (SSym ''do'')])) [65, 0]
          \<lparr>frames = F, cells = (\<lambda>a. Undefined), next_id = 89\<rparr> = Inl (UnboundSymbol ''do'')"
    by blast
  then show ?thesis
    using f by (simp add: r d two_eq [symmetric])
qed

subsection \<open>More fuel does not change an answer\<close>

lemma le_res_refl: "le_res r r"
  by (simp add: le_res_def)

lemma le_res_case:
  assumes "le_res x y" and "\<And>v. x = Inr v \<Longrightarrow> le_res (f v) (g v)"
  shows "le_res (case x of Inl e \<Rightarrow> Inl e | Inr v \<Rightarrow> f v) (case y of Inl e \<Rightarrow> Inl e | Inr v \<Rightarrow> g v)"
  using assms by (cases x) (auto simp: le_res_def)

lemma le_res_bnd:
  assumes "le_res x y" and "\<And>v. x = Inr v \<Longrightarrow> le_res (f v) (g v)"
  shows "le_res (bnd x f) (bnd y g)"
  unfolding bnd_def using assms by (rule le_res_case)

lemma le_res_prod:
  assumes "\<And>a b. p = (a, b) \<Longrightarrow> le_res (f a b) (g a b)"
  shows "le_res (case p of (a, b) \<Rightarrow> f a b) (case p of (a, b) \<Rightarrow> g a b)"
  using assms by (cases p) simp

lemma call_mono: "le_eval rec rec' \<Longrightarrow> le_res (call rec s ast env st) (call rec' s ast env st)"
  by (cases s) (auto simp: call_def le_eval_def le_res_def)

lemma le_eval_app: "le_eval rec rec' \<Longrightarrow> le_res (rec s ast env st) (rec' s ast env st)"
  by (simp add: le_eval_def)

lemma eval_each_mono:
  assumes "\<And>x st. le_res (f x st) (g x st)"
  shows "le_res (eval_each f xs st) (eval_each g xs st)"
proof (induction xs arbitrary: st)
  case Nil
  then show ?case by (simp add: le_res_refl)
next
  case (Cons x xs)
  show ?case
    unfolding eval_each.simps
    by (intro le_res_case le_res_prod assms Cons.IH le_res_refl)
qed

lemma eval_entries_mono:
  assumes "\<And>x st. le_res (f x st) (g x st)"
  shows "le_res (eval_entries f m st) (eval_entries g m st)"
proof (induction m arbitrary: st)
  case Nil
  then show ?case by (simp add: le_res_refl)
next
  case (Cons kx m)
  obtain k x where kx: "kx = (k, x)" by (cases kx)
  show ?case
    unfolding kx eval_entries.simps
    by (intro le_res_case le_res_prod assms Cons.IH le_res_refl)
qed

lemma eval_ast_mono:
  assumes "le_eval rec rec'"
  shows "le_res (eval_ast rec s ast env st) (eval_ast rec' s ast env st)"
proof (cases ast)
  case Undefined
  then show ?thesis by (simp add: le_res_refl)
next
  case (Obj i sh)
  show ?thesis
    unfolding Obj
    by (cases sh; simp only: eval_ast.simps)
      (intro le_res_refl le_res_case le_res_prod eval_each_mono eval_entries_mono call_mono assms)+
qed

lemma let_bindings_mono:
  assumes "le_eval rec rec'"
  shows "le_res (let_bindings rec s bs let_env st) (let_bindings rec' s bs let_env st)"
proof (induction bs arbitrary: st rule: length_induct)
  case (1 bs)
  show ?case
  proof (cases bs)
    case Nil
    then show ?thesis by (simp add: le_res_refl)
  next
    case (Cons b rest)
    have "length (drop 1 rest) < length bs" using Cons by simp
    with 1 have IH: "le_res (let_bindings rec s (drop 1 rest) let_env st')
        (let_bindings rec' s (drop 1 rest) let_env st')" for st'
      by blast
    show ?thesis
      unfolding Cons let_bindings.simps
      by (intro le_res_bnd le_res_case le_res_prod le_res_refl call_mono assms IH)
  qed
qed

lemma do_effects_mono:
  assumes "le_eval rec rec'"
  shows "le_res (do_effects rec s xs env st) (do_effects rec' s xs env st)"
proof (induction xs arbitrary: st)
  case Nil
  then show ?case by (simp add: le_res_refl)
next
  case (Cons x xs)
  show ?case
    unfolding do_effects.simps
    by (intro le_res_case le_res_prod le_res_refl call_mono assms Cons.IH)
qed

lemma eval_step_mono:
  assumes "le_eval rec rec'"
  shows "le_res (eval_step rec s ast env st) (eval_step rec' s ast env st)"
proof -
  note rules = le_res_bnd le_res_case le_res_prod le_res_refl call_mono [OF assms]
    le_eval_app [OF assms] eval_ast_mono [OF assms] let_bindings_mono [OF assms]
    do_effects_mono [OF assms]
  have d: "le_res (eval_def rec s xs env st) (eval_def rec' s xs env st)" for xs
    unfolding eval_def_def by (intro rules)
  have l: "le_res (eval_let rec s xs env st) (eval_let rec' s xs env st)" for xs
    unfolding eval_let_def by (intro rules)
  have o: "le_res (eval_do rec s xs env st) (eval_do rec' s xs env st)" for xs
    unfolding eval_do_def by (intro rules)
  have i: "le_res (eval_if rec s xs env st) (eval_if rec' s xs env st)" for xs
    unfolding eval_if_def
    by (intro rules le_res_case [where f = "\<lambda>p. case p of (c, st') \<Rightarrow> _ c st'"]) (auto intro!: rules)
  have a: "le_res (eval_apply rec s x env st) (eval_apply rec' s x env st)" for x
    unfolding eval_apply_def
    by (intro rules) (auto intro!: rules split: fn.splits)
  show ?thesis
    unfolding eval_step_def
    by (intro rules) (auto intro!: rules d l o i a split: mal.splits)
qed

lemma eval_mal_mono: "le_res (eval_mal n s ast env st) (eval_mal (n + k) s ast env st)"
proof (induction n arbitrary: s ast env st)
  case 0
  then show ?case by (simp add: le_res_def)
next
  case (Suc n)
  have "le_eval (eval_mal n) (eval_mal (n + k))"
    unfolding le_eval_def using Suc.IH by blast
  then show ?case
    by (simp add: eval_step_mono)
qed

subsection \<open>A pass that continues keeps the room\<close>

lemma le_eval_mal: "le_eval (eval_mal n) (eval_mal (n + k))"
  unfolding le_eval_def using eval_mal_mono by blast

lemma le_res_Inr: "le_res (Inr v) r \<Longrightarrow> r = Inr v"
  by (auto simp: le_res_def)

lemma le_res_done: "le_res r r' \<Longrightarrow> r \<noteq> Inl OutOfFuel \<Longrightarrow> r' = r"
  by (auto simp: le_res_def)

lemma call_more:
  "call (eval_mal n) s c env st = Inr v \<Longrightarrow> call (eval_mal (n + k)) s c env st = Inr v"
  using call_mono [OF le_eval_mal [of n k], where s = s and ast = c and env = env and st = st]
  by (simp add: le_res_Inr)

lemma do_effects_more:
  "do_effects (eval_mal n) s xs env st = Inr v \<Longrightarrow> do_effects (eval_mal (n + k)) s xs env st = Inr v"
  using do_effects_mono [OF le_eval_mal [of n k], where s = s and xs = xs and env = env and st = st]
  by (simp add: le_res_Inr)

lemma let_bindings_more:
  "let_bindings (eval_mal n) s bs env st = Inr v
     \<Longrightarrow> let_bindings (eval_mal (n + k)) s bs env st = Inr v"
  using let_bindings_mono [OF le_eval_mal [of n k], where s = s and bs = bs and let_env = env and st = st]
  by (simp add: le_res_Inr)

lemma eval_ast_more:
  "eval_ast (eval_mal n) s ast env st = Inr v \<Longrightarrow> eval_ast (eval_mal (n + k)) s ast env st = Inr v"
  using eval_ast_mono [OF le_eval_mal [of n k], where s = s and ast = ast and env = env and st = st]
  by (simp add: le_res_Inr)

lemma tail_step_fuel:
  assumes "tail_step s c c'"
  shows "\<exists>n. \<forall>k. eval_mal (Suc (n + k)) s (fst c) (fst (snd c)) (snd (snd c))
                 = eval_mal (n + k) s (fst c') (fst (snd c')) (snd (snd c'))"
  using assms
proof cases
  case (if_then c0 env st i v st' j h t rest)
  from if_then(3) obtain n where n: "call (eval_mal n) s c0 env st = Inr (Obj i v, st')" by blast
  have "call (eval_mal (n + k)) s c0 env st = Inr (Obj i v, st')" for k
    using n by (rule call_more)
  then have "eval_mal (Suc (n + k)) s (Obj j (SList (Obj h (SSym ''if'') # c0 # t # rest))) env st
      = eval_mal (n + k) s t env st'" for k
    using if_then(4,5) falsy_iff [of st' i v]
    by (simp add: eval_step_def eval_if_def bnd_def idx_def)
  then show ?thesis unfolding if_then(1,2) by auto
next
  case (if_else c0 env st i v st' j h t k0 e rest)
  from if_else(3) obtain n where n: "call (eval_mal n) s c0 env st = Inr (Obj i v, st')" by blast
  have "call (eval_mal (n + k)) s c0 env st = Inr (Obj i v, st')" for k
    using n by (rule call_more)
  then have "eval_mal (Suc (n + k)) s (Obj j (SList (Obj h (SSym ''if'') # c0 # t # Obj k0 e # rest))) env st
      = eval_mal (n + k) s (Obj k0 e) env st'" for k
    using if_else(4) falsy_iff [of st' i v]
    by (auto simp: eval_step_def eval_if_def bnd_def idx_def)
  then show ?thesis unfolding if_else(1,2) by auto
next
  case (do_last xs env st st' j h x)
  from do_last(3) obtain n where n: "do_effects (eval_mal n) s xs env st = Inr st'" by blast
  have "do_effects (eval_mal (n + k)) s xs env st = Inr st'" for k
    using n by (rule do_effects_more)
  then have "eval_mal (Suc (n + k)) s (Obj j (SList (Obj h (SSym ''do'') # xs @ [x]))) env st
      = eval_mal (n + k) s x env st'" for k
    by (simp add: eval_step_def eval_do_def bnd_def idx_def butlast_append nth_append)
  then show ?thesis unfolding do_last(1,2) by auto
next
  case (let_body bs st env st' j h b body rest)
  let ?st0 = "st\<lparr>frames := (frames st)(next_id st := Map.empty), next_id := next_id st + 1\<rparr>"
  from let_body(3) obtain n where n: "let_bindings (eval_mal n) s bs (next_id st # env) ?st0 = Inr st'"
    by blast
  have "let_bindings (eval_mal (n + k)) s bs (next_id st # env) ?st0 = Inr st'" for k
    using n by (rule let_bindings_more)
  then have "eval_mal (Suc (n + k)) s
        (Obj j (SList (Obj h (SSym ''let*'') # Obj b (SList bs) # body # rest))) env st
      = eval_mal (n + k) s body (next_id st # env) st'" for k
    by (simp add: eval_step_def eval_let_def bnd_def idx_def env_init_def)
  then show ?thesis unfolding let_body(1,2) by auto
next
  case (closure_call st hx hv l as env r c0 fenv params body args st' ps binds)
  from closure_call(9) obtain n where
    n: "eval_ast (eval_mal n) s (Obj l (SList (hx # as))) env st
          = Inr (Obj r (SList (Obj c0 (SFn (Closure fenv params body)) # args)), st')"
    by blast
  have "eval_ast (eval_mal (n + k)) s (Obj l (SList (hx # as))) env st
          = Inr (Obj r (SList (Obj c0 (SFn (Closure fenv params body)) # args)), st')" for k
    using n by (rule eval_ast_more)
  then have "eval_mal (Suc (n + k)) s (Obj l (SList (hx # as))) env st
      = eval_mal (n + k) s body (next_id st' # fenv)
          (st'\<lparr>frames := (frames st')(next_id st' := bind_params binds args Map.empty),
                next_id := next_id st' + 1\<rparr>)" for k
    using closure_call(3-8,10,11)
    by (simp add: eval_step_def eval_apply_def bnd_def idx_def env_init_def)
  then show ?thesis unfolding closure_call(1,2) by auto
qed

lemma tail_step_returns:
  assumes "tail_step s c c'" and "returns s c' r"
  shows "returns s c r"
proof -
  from tail_step_fuel [OF assms(1)] obtain n where
    n: "\<And>k. eval_mal (Suc (n + k)) s (fst c) (fst (snd c)) (snd (snd c))
                 = eval_mal (n + k) s (fst c') (fst (snd c')) (snd (snd c'))"
    by blast
  from assms(2) obtain m where r: "r \<noteq> Inl OutOfFuel"
    and m: "eval_mal m s (fst c') (fst (snd c')) (snd (snd c')) = r"
    by (auto simp: returns_def)
  from eval_mal_mono [of m s "fst c'" "fst (snd c')" "snd (snd c')" n] m r
  have "eval_mal (m + n) s (fst c') (fst (snd c')) (snd (snd c')) = r"
    by (auto dest: le_res_done)
  with n [of m] have "eval_mal (Suc (n + m)) s (fst c) (fst (snd c)) (snd (snd c)) = r"
    by (simp add: add.commute)
  with r show ?thesis
    unfolding returns_def by blast
qed

lemma tail_steps_returns:
  assumes "(tail_step s)\<^sup>*\<^sup>* c c'" and "returns s c' r"
  shows "returns s c r"
  using assms by (induction rule: converse_rtranclp_induct) (auto intro: tail_step_returns)

lemma closure_call_continues:
  assumes "value_of st hx = Inr hv"
    and "\<not> strict_eq hv (JStr ''def!'')" "\<not> strict_eq hv (JStr ''let*'')"
      "\<not> strict_eq hv (JStr ''do'')" "\<not> strict_eq hv (JStr ''if'')" "\<not> strict_eq hv (JStr ''fn*'')"
    and "eval_ast (eval_mal n) s (Obj l (SList (hx # as))) env st
           = Inr (Obj r (SList (Obj c (SFn (Closure fenv (Obj q (SList ps)) body)) # args)), st')"
    and "sym_names ps = Inr binds"
  shows "eval_mal (Suc n) s (Obj l (SList (hx # as))) env st
       = eval_mal n s body (next_id st' # fenv)
           (st'\<lparr>frames := (frames st')(next_id st' := bind_params binds args Map.empty),
                 next_id := next_id st' + 1\<rparr>)"
  using assms by (simp add: eval_step_def eval_apply_def bnd_def idx_def env_init_def)

lemma loop_body_shape:
  "loop_body b =
     Obj (b + 20) (SList
       [Obj b (SSym ''if''),
        Obj (b + 4) (SList [Obj (b + 1) (SSym ''=''), Obj (b + 2) (SSym ''n''), Obj (b + 3) (SInt (Fin 0))]),
        Obj (b + 5) (SSym ''n''),
        Obj (b + 19) (SList
          [Obj (b + 6) (SSym ''do''), Obj (b + 7) (SSym ''n''),
           Obj (b + 18) (SList
              [Obj (b + 8) (SSym ''let*''),
               Obj (b + 14) (SList
                 [Obj (b + 9) (SSym ''m''),
                  Obj (b + 13) (SList
                    [Obj (b + 10) (SSym ''-''), Obj (b + 11) (SSym ''n''), Obj (b + 12) (SInt (Fin 1))])]),
               Obj (b + 17) (SList [Obj (b + 15) (SSym ''loop''), Obj (b + 16) (SSym ''m'')])])])])"
  by (simp add: loop_body_eq alloc_def empty_store_def eval_nat_numeral)

lemma loop_iter_chain:
  assumes eq: "lookup (frames st) cenv ''='' = Inr (Obj e (SFn (Native ''='')))"
    and sub: "lookup (frames st) cenv ''-'' = Inr (Obj d (SFn (Native ''-'')))"
    and loop: "lookup (frames st) cenv ''loop''
                 = Inr (Obj c (SFn (Closure cenv (Obj q (SList [Obj p (SSym ''n'')])) (loop_body b))))"
    and below: "\<forall>x\<in>set cenv. x < next_id st"
    and a: "a < next_id st"
    and n: "frames st a = [''n'' \<mapsto> Obj i (SInt (Fin (int (Suc k))))]"
    and kb: "k < 2 ^ 53"
  shows "(tail_step (Suc (Suc s)))\<^sup>+\<^sup>+ (loop_body b, a # cenv, st) (loop_next k (loop_body b, a # cenv, st))"
proof -
  let ?S = "Suc (Suc s)"
  let ?v = "next_id st"
  let ?cond = "Obj (b + 4) (SList [Obj (b + 1) (SSym ''=''), Obj (b + 2) (SSym ''n''), Obj (b + 3) (SInt (Fin 0))])"
  let ?call = "Obj (b + 17) (SList [Obj (b + 15) (SSym ''loop''), Obj (b + 16) (SSym ''m'')])"
  let ?bs = "[Obj (b + 9) (SSym ''m''),
              Obj (b + 13) (SList
                [Obj (b + 10) (SSym ''-''), Obj (b + 11) (SSym ''n''), Obj (b + 12) (SInt (Fin 1))])]"
  let ?let = "Obj (b + 18) (SList [Obj (b + 8) (SSym ''let*''), Obj (b + 14) (SList ?bs), ?call])"
  let ?do = "Obj (b + 19) (SList [Obj (b + 6) (SSym ''do''), Obj (b + 7) (SSym ''n''), ?let])"
  let ?w = "Obj (?v + 4) (SInt (Fin (int k)))"
  let ?sta = "st\<lparr>next_id := ?v + 2\<rparr>"
  let ?stb = "st\<lparr>frames := (frames st)(?v + 2 := [''m'' \<mapsto> ?w]), next_id := ?v + 5\<rparr>"
  let ?stc = "st\<lparr>frames := (frames st)(?v + 2 := [''m'' \<mapsto> ?w], ?v + 6 := [''n'' \<mapsto> ?w]),
                 next_id := ?v + 7\<rparr>"
  have fresh: "next_id st \<notin> set cenv" "Suc (next_id st) \<notin> set cenv"
    "Suc (Suc (next_id st)) \<notin> set cenv" "Suc (Suc (Suc (next_id st))) \<notin> set cenv"
    "Suc (Suc (Suc (Suc (next_id st)))) \<notin> set cenv"
    "Suc (Suc (Suc (Suc (Suc (next_id st))))) \<notin> set cenv"
    "Suc (Suc (Suc (Suc (Suc (Suc (next_id st)))))) \<notin> set cenv"
    "next_id st + 2 \<notin> set cenv" "next_id st + 6 \<notin> set cenv"
    using below by fastforce+
  note ev = step_simps env_get_lookup lookup_upd_fresh eval_mal_sym eval_mal_int fresh eq sub loop n
    ns_def ns_eq_def ns_sub_def arith_def js_sub_one [OF kb] is_seq_def
  have c1: "\<exists>n. call (eval_mal n) ?S ?cond (a # cenv) st = Inr (Obj (?v + 1) (SBool False), ?sta)"
    using a by (intro exI [of _ "Suc (Suc 0)"]) (simp add: ev eval_nat_numeral cong: prod.case_cong_weak)
  have t1: "tail_step ?S (loop_body b, a # cenv, st) (?do, a # cenv, ?sta)"
    unfolding loop_body_shape
    by (rule tail_step.if_else [where i = "?v + 1" and v = "SBool False", OF c1]) simp
  have c2: "\<exists>n. do_effects (eval_mal n) ?S [Obj (b + 7) (SSym ''n'')] (a # cenv) ?sta = Inr ?sta"
    by (intro exI [of _ "Suc 0"]) (simp add: ev eval_nat_numeral cong: prod.case_cong_weak)
  have t2: "tail_step ?S (?do, a # cenv, ?sta) (?let, a # cenv, ?sta)"
    using tail_step.do_last [where j = "b + 19" and h = "b + 6" and x = ?let, OF c2]
    by simp
  have c3: "\<exists>n. let_bindings (eval_mal n) ?S ?bs (next_id ?sta # a # cenv)
              (?sta\<lparr>frames := (frames ?sta)(next_id ?sta := Map.empty), next_id := next_id ?sta + 1\<rparr>)
            = Inr ?stb"
    using a by (intro exI [of _ "Suc (Suc 0)"]) (simp add: ev eval_nat_numeral cong: prod.case_cong_weak)
  have t3: "tail_step ?S (?let, a # cenv, ?sta) (?call, (?v + 2) # a # cenv, ?stb)"
    using tail_step.let_body [where j = "b + 18" and h = "b + 8" and b = "b + 14" and body = ?call
        and rest = "[]", OF c3]
    by simp
  have c4: "\<exists>n. eval_ast (eval_mal n) ?S ?call ((?v + 2) # a # cenv) ?stb
      = Inr (Obj (?v + 5) (SList [Obj c (SFn (Closure cenv (Obj q (SList [Obj p (SSym ''n'')])) (loop_body b))), ?w]),
             ?stb\<lparr>next_id := ?v + 6\<rparr>)"
    using a by (intro exI [of _ "Suc 0"]) (simp add: ev eval_nat_numeral cong: prod.case_cong_weak)
  have t4: "tail_step ?S (?call, (?v + 2) # a # cenv, ?stb) (loop_body b, (?v + 6) # cenv, ?stc)"
    using tail_step.closure_call [where hv = "JStr ''loop''" and ps = "[Obj p (SSym ''n'')]"
        and binds = "[''n'']", OF _ _ _ _ _ _ c4]
    by (simp add: bnd_def idx_def eval_nat_numeral)
  have "(tail_step ?S)\<^sup>+\<^sup>+ (loop_body b, a # cenv, st) (?do, a # cenv, ?sta)"
    using t1 by (rule tranclp.r_into_trancl)
  then have "(tail_step ?S)\<^sup>+\<^sup>+ (loop_body b, a # cenv, st) (?let, a # cenv, ?sta)"
    using t2 by (rule tranclp.trancl_into_trancl)
  then have "(tail_step ?S)\<^sup>+\<^sup>+ (loop_body b, a # cenv, st) (?call, (?v + 2) # a # cenv, ?stb)"
    using t3 by (rule tranclp.trancl_into_trancl)
  then have "(tail_step ?S)\<^sup>+\<^sup>+ (loop_body b, a # cenv, st) (loop_body b, (?v + 6) # cenv, ?stc)"
    using t4 by (rule tranclp.trancl_into_trancl)
  then show ?thesis
    by (simp add: loop_next_def)
qed


lemma loop_cfg_inv:
  assumes eq: "lookup (frames st) cenv ''='' = Inr (Obj e (SFn (Native ''='')))"
    and sub: "lookup (frames st) cenv ''-'' = Inr (Obj d (SFn (Native ''-'')))"
    and loop: "lookup (frames st) cenv ''loop''
                 = Inr (Obj c (SFn (Closure cenv (Obj q (SList [Obj p (SSym ''n'')])) (loop_body b))))"
    and below: "\<forall>x\<in>set cenv. x < next_id st"
    and a: "a < next_id st"
    and n: "frames st a = [''n'' \<mapsto> Obj i (SInt (Fin (int N)))]"
    and j: "j \<le> N"
  shows "\<exists>a' st' i'.
           loop_cfg N (loop_body b, a # cenv, st) j = (loop_body b, a' # cenv, st')
           \<and> lookup (frames st') cenv ''='' = Inr (Obj e (SFn (Native ''='')))
           \<and> lookup (frames st') cenv ''-'' = Inr (Obj d (SFn (Native ''-'')))
           \<and> lookup (frames st') cenv ''loop''
                = Inr (Obj c (SFn (Closure cenv (Obj q (SList [Obj p (SSym ''n'')])) (loop_body b))))
           \<and> (\<forall>x\<in>set cenv. x < next_id st')
           \<and> a' < next_id st'
           \<and> frames st' a' = [''n'' \<mapsto> Obj i' (SInt (Fin (int (N - j))))]"
  using j
proof (induction j)
  case 0
  have "loop_cfg N (loop_body b, a # cenv, st) 0 = (loop_body b, a # cenv, st)" by simp
  moreover have "frames st a = [''n'' \<mapsto> Obj i (SInt (Fin (int (N - 0))))]" using n by simp
  ultimately show ?case using eq sub loop below a by blast
next
  case (Suc j)
  then have "j \<le> N" by simp
  from Suc.IH [OF this] obtain a' st' i' where
    cfg: "loop_cfg N (loop_body b, a # cenv, st) j = (loop_body b, a' # cenv, st')"
    and eq': "lookup (frames st') cenv ''='' = Inr (Obj e (SFn (Native ''='')))"
    and sub': "lookup (frames st') cenv ''-'' = Inr (Obj d (SFn (Native ''-'')))"
    and loop': "lookup (frames st') cenv ''loop''
                = Inr (Obj c (SFn (Closure cenv (Obj q (SList [Obj p (SSym ''n'')])) (loop_body b))))"
    and below': "\<forall>x\<in>set cenv. x < next_id st'"
    by blast
  let ?w = "Obj (next_id st' + 4) (SInt (Fin (int (N - Suc j))))"
  let ?st = "st'\<lparr>frames := (frames st')
                  (next_id st' + 2 := [''m'' \<mapsto> ?w], next_id st' + 6 := [''n'' \<mapsto> ?w]),
                next_id := next_id st' + 7\<rparr>"
  have fresh: "next_id st' + 2 \<notin> set cenv" "next_id st' + 6 \<notin> set cenv"
    using below' by fastforce+
  have "loop_cfg N (loop_body b, a # cenv, st) (Suc j) = (loop_body b, (next_id st' + 6) # cenv, ?st)"
    by (simp add: cfg loop_next_def)
  moreover have "lookup (frames ?st) cenv ''='' = Inr (Obj e (SFn (Native ''='')))"
    using eq' fresh by (simp add: lookup_upd_fresh)
  moreover have "lookup (frames ?st) cenv ''-'' = Inr (Obj d (SFn (Native ''-'')))"
    using sub' fresh by (simp add: lookup_upd_fresh)
  moreover have "lookup (frames ?st) cenv ''loop''
            = Inr (Obj c (SFn (Closure cenv (Obj q (SList [Obj p (SSym ''n'')])) (loop_body b))))"
    using loop' fresh by (simp add: lookup_upd_fresh)
  moreover have "\<forall>x\<in>set cenv. x < next_id ?st"
    using below' by fastforce
  moreover have "next_id st' + 6 < next_id ?st" by simp
  moreover have "frames ?st (next_id st' + 6) = [''n'' \<mapsto> ?w]" by simp
  ultimately show ?case by blast
qed

lemma loop_cfg_step:
  assumes eq: "lookup (frames st) cenv ''='' = Inr (Obj e (SFn (Native ''='')))"
    and sub: "lookup (frames st) cenv ''-'' = Inr (Obj d (SFn (Native ''-'')))"
    and loop: "lookup (frames st) cenv ''loop''
                 = Inr (Obj c (SFn (Closure cenv (Obj q (SList [Obj p (SSym ''n'')])) (loop_body b))))"
    and below: "\<forall>x\<in>set cenv. x < next_id st"
    and a: "a < next_id st"
    and n: "frames st a = [''n'' \<mapsto> Obj i (SInt (Fin (int N)))]"
    and j: "j < N" and N: "N \<le> 2 ^ 53"
  shows "(tail_step (Suc (Suc s)))\<^sup>+\<^sup>+
           (loop_cfg N (loop_body b, a # cenv, st) j) (loop_cfg N (loop_body b, a # cenv, st) (Suc j))"
proof -
  from j have "j \<le> N" by simp
  from loop_cfg_inv [OF eq sub loop below a n this] obtain a' st' i' where
    cfg: "loop_cfg N (loop_body b, a # cenv, st) j = (loop_body b, a' # cenv, st')"
    and eq': "lookup (frames st') cenv ''='' = Inr (Obj e (SFn (Native ''='')))"
    and sub': "lookup (frames st') cenv ''-'' = Inr (Obj d (SFn (Native ''-'')))"
    and loop': "lookup (frames st') cenv ''loop''
                = Inr (Obj c (SFn (Closure cenv (Obj q (SList [Obj p (SSym ''n'')])) (loop_body b))))"
    and below': "\<forall>x\<in>set cenv. x < next_id st'"
    and a': "a' < next_id st'"
    and n': "frames st' a' = [''n'' \<mapsto> Obj i' (SInt (Fin (int (N - j))))]"
    by blast
  have "N - j = Suc (N - Suc j)" using j by simp
  then have n'': "frames st' a' = [''n'' \<mapsto> Obj i' (SInt (Fin (int (Suc (N - Suc j)))))]"
    using n' by simp
  have kb: "N - Suc j < 2 ^ 53" using j N by simp
  have "(tail_step (Suc (Suc s)))\<^sup>+\<^sup>+ (loop_body b, a' # cenv, st')
          (loop_next (N - Suc j) (loop_body b, a' # cenv, st'))"
    by (rule loop_iter_chain [OF eq' sub' loop' below' a' n'' kb])
  then show ?thesis by (simp add: cfg)
qed

lemma loop_body_done:
  assumes eq: "lookup (frames st) cenv ''='' = Inr (Obj e (SFn (Native ''='')))"
    and below: "\<forall>x\<in>set cenv. x < next_id st"
    and a: "a < next_id st"
    and n: "frames st a = [''n'' \<mapsto> Obj i (SInt (Fin 0))]"
  shows "returns (Suc (Suc s)) (loop_body b, a # cenv, st) (loop_result (loop_body b, a # cenv, st))"
    and "answer_shape (loop_result (loop_body b, a # cenv, st)) = Inr (Some (SInt (Fin 0)))"
proof -
  have fresh: "next_id st \<notin> set cenv" "Suc (next_id st) \<notin> set cenv"
    using below by fastforce+
  have res: "loop_result (loop_body b, a # cenv, st)
      = Inr (Obj i (SInt (Fin 0)), st\<lparr>next_id := next_id st + 2\<rparr>)"
    by (simp add: loop_result_def n bnd_def)
  have run: "eval_mal (Suc (Suc (Suc 0))) (Suc (Suc s)) (loop_body b) (a # cenv) st
      = Inr (Obj i (SInt (Fin 0)), st\<lparr>next_id := next_id st + 2\<rparr>)"
    using a
    by (simp add: loop_body_eq step_simps empty_store_def env_get_lookup lookup_upd_fresh
        fresh eq n ns_def ns_eq_def is_seq_def
        cong: prod.case_cong_weak)
  show "returns (Suc (Suc s)) (loop_body b, a # cenv, st) (loop_result (loop_body b, a # cenv, st))"
    unfolding returns_def res using run by (intro conjI exI [of _ "Suc (Suc (Suc 0))"]) simp_all
  show "answer_shape (loop_result (loop_body b, a # cenv, st)) = Inr (Some (SInt (Fin 0)))"
    by (simp add: res)
qed

lemma loop_cfg_done:
  assumes eq: "lookup (frames st) cenv ''='' = Inr (Obj e (SFn (Native ''='')))"
    and sub: "lookup (frames st) cenv ''-'' = Inr (Obj d (SFn (Native ''-'')))"
    and loop: "lookup (frames st) cenv ''loop''
                 = Inr (Obj c (SFn (Closure cenv (Obj q (SList [Obj p (SSym ''n'')])) (loop_body b))))"
    and below: "\<forall>x\<in>set cenv. x < next_id st"
    and a: "a < next_id st"
    and n: "frames st a = [''n'' \<mapsto> Obj i (SInt (Fin (int N)))]"
  shows "returns (Suc (Suc s)) (loop_cfg N (loop_body b, a # cenv, st) N)
           (loop_result (loop_cfg N (loop_body b, a # cenv, st) N))"
    and "answer_shape (loop_result (loop_cfg N (loop_body b, a # cenv, st) N))
           = Inr (Some (SInt (Fin 0)))"
proof -
  from loop_cfg_inv [OF eq sub loop below a n order_refl] obtain a' st' i' where
    cfg: "loop_cfg N (loop_body b, a # cenv, st) N = (loop_body b, a' # cenv, st')"
    and eq': "lookup (frames st') cenv ''='' = Inr (Obj e (SFn (Native ''='')))"
    and below': "\<forall>x\<in>set cenv. x < next_id st'"
    and a': "a' < next_id st'"
    and n': "frames st' a' = [''n'' \<mapsto> Obj i' (SInt (Fin (int (N - N))))]"
    by blast
  from n' have n0: "frames st' a' = [''n'' \<mapsto> Obj i' (SInt (Fin 0))]" by simp
  show "returns (Suc (Suc s)) (loop_cfg N (loop_body b, a # cenv, st) N)
           (loop_result (loop_cfg N (loop_body b, a # cenv, st) N))"
    unfolding cfg by (rule loop_body_done [OF eq' below' a' n0])
  show "answer_shape (loop_result (loop_cfg N (loop_body b, a # cenv, st) N))
           = Inr (Some (SInt (Fin 0)))"
    unfolding cfg by (rule loop_body_done [OF eq' below' a' n0])
qed

lemma loop_call_enters:
  assumes loop: "env_get st cenv ''loop''
                 = Inr (Obj c (SFn (Closure cenv (Obj q (SList [Obj p (SSym ''n'')])) (loop_body b))))"
  shows "tail_step (Suc (Suc z))
           (Obj i (SList [Obj j (SSym ''loop''), Obj k (SInt v)]), cenv, st)
           (loop_entry b cenv (Obj k (SInt v)) st)"
proof -
  have ev: "\<exists>n. eval_ast (eval_mal n) (Suc (Suc z))
               (Obj i (SList [Obj j (SSym ''loop''), Obj k (SInt v)])) cenv st
      = Inr (Obj (next_id st) (SList [Obj c (SFn (Closure cenv (Obj q (SList [Obj p (SSym ''n'')])) (loop_body b))),
                                      Obj k (SInt v)]),
             st\<lparr>next_id := next_id st + 1\<rparr>)"
    using loop by (intro exI [of _ "Suc 0"]) (simp add: step_simps)
  show ?thesis
    using tail_step.closure_call [where hv = "JStr ''loop''" and ps = "[Obj p (SSym ''n'')]"
        and binds = "[''n'']", OF _ _ _ _ _ _ ev]
    by (simp add: bnd_def idx_def loop_entry_def)
qed

lemma steps_chain:
  assumes "\<And>j. j < M \<Longrightarrow> R\<^sup>+\<^sup>+ (cs j) (cs (Suc j))"
  shows "R\<^sup>*\<^sup>* (cs 0) (cs M)"
  using assms
proof (induction M)
  case 0
  show ?case by simp
next
  case (Suc M)
  then have "R\<^sup>*\<^sup>* (cs 0) (cs M)" by simp
  moreover have "R\<^sup>+\<^sup>+ (cs M) (cs (Suc M))" using Suc.prems by simp
  ultimately show ?case by (meson rtranclp_trans tranclp_into_rtranclp)
qed

lemma returns_back:
  assumes "(tail_step s)\<^sup>*\<^sup>* c c'" and "returns s c r"
  shows "returns s c' r"
  using assms
proof (induction rule: rtranclp_induct)
  case base
  then show ?case .
next
  case (step y z)
  then have y: "returns s y r" by simp
  from tail_step_fuel [OF step.hyps(2)] obtain n where
    n: "\<And>k. eval_mal (Suc (n + k)) s (fst y) (fst (snd y)) (snd (snd y))
                 = eval_mal (n + k) s (fst z) (fst (snd z)) (snd (snd z))"
    by blast
  from y obtain m where r: "r \<noteq> Inl OutOfFuel"
    and m: "eval_mal m s (fst y) (fst (snd y)) (snd (snd y)) = r"
    by (auto simp: returns_def)
  from eval_mal_mono [of m s "fst y" "fst (snd y)" "snd (snd y)" "Suc n"] m r
  have "eval_mal (m + Suc n) s (fst y) (fst (snd y)) (snd (snd y)) = r"
    by (auto dest: le_res_done)
  with n [of m] have "eval_mal (n + m) s (fst z) (fst (snd z)) (snd (snd z)) = r"
    by (simp add: add.commute)
  with r show ?case
    unfolding returns_def by blast
qed


lemma loop_run_chain:
  assumes eq: "env_get st cenv ''='' = Inr (Obj e (SFn (Native ''='')))"
    and sub: "env_get st cenv ''-'' = Inr (Obj d (SFn (Native ''-'')))"
    and loop: "env_get st cenv ''loop''
                 = Inr (Obj c (SFn (Closure cenv (Obj q (SList [Obj p (SSym ''n'')])) (loop_body b))))"
    and below: "\<forall>a\<in>set cenv. a < next_id st"
    and Nb: "N \<le> 2 ^ 53"
  shows "\<forall>j<N. (tail_step (Suc (Suc z)))\<^sup>+\<^sup>+
                  (loop_cfg N (loop_entry b cenv (Obj k (SInt (Fin (int N)))) st) j)
                  (loop_cfg N (loop_entry b cenv (Obj k (SInt (Fin (int N)))) st) (Suc j))"
    and "returns (Suc (Suc z)) (loop_cfg N (loop_entry b cenv (Obj k (SInt (Fin (int N)))) st) N)
           (loop_result (loop_cfg N (loop_entry b cenv (Obj k (SInt (Fin (int N)))) st) N))"
    and "answer_shape (loop_result (loop_cfg N (loop_entry b cenv (Obj k (SInt (Fin (int N)))) st) N))
           = Inr (Some (SInt (Fin 0)))"
    and "returns (Suc (Suc z)) (Obj i (SList [Obj j (SSym ''loop''), Obj k (SInt (Fin (int N)))]), cenv, st)
           (loop_result (loop_cfg N (loop_entry b cenv (Obj k (SInt (Fin (int N)))) st) N))"
proof -
  let ?st = "st\<lparr>frames := (frames st)(next_id st + 1 := [''n'' \<mapsto> Obj k (SInt (Fin (int N)))]),
                next_id := next_id st + 2\<rparr>"
  let ?c = "loop_entry b cenv (Obj k (SInt (Fin (int N)))) st"
  have entry: "?c = (loop_body b, (next_id st + 1) # cenv, ?st)"
    by (simp add: loop_entry_def)
  have fresh: "next_id st + 1 \<notin> set cenv"
    using below by fastforce
  have eq': "lookup (frames ?st) cenv ''='' = Inr (Obj e (SFn (Native ''='')))"
    using eq fresh by (simp add: lookup_upd_fresh env_get_lookup)
  have sub': "lookup (frames ?st) cenv ''-'' = Inr (Obj d (SFn (Native ''-'')))"
    using sub fresh by (simp add: lookup_upd_fresh env_get_lookup)
  have loop': "lookup (frames ?st) cenv ''loop''
            = Inr (Obj c (SFn (Closure cenv (Obj q (SList [Obj p (SSym ''n'')])) (loop_body b))))"
    using loop fresh by (simp add: lookup_upd_fresh env_get_lookup)
  have below': "\<forall>x\<in>set cenv. x < next_id ?st"
    using below by fastforce
  have a': "next_id st + 1 < next_id ?st" by simp
  have n': "frames ?st (next_id st + 1) = [''n'' \<mapsto> Obj k (SInt (Fin (int N)))]"
    by simp
  show steps: "\<forall>j<N. (tail_step (Suc (Suc z)))\<^sup>+\<^sup>+ (loop_cfg N ?c j) (loop_cfg N ?c (Suc j))"
    unfolding entry using loop_cfg_step [OF eq' sub' loop' below' a' n' _ Nb] by blast
  show fin: "returns (Suc (Suc z)) (loop_cfg N ?c N) (loop_result (loop_cfg N ?c N))"
    unfolding entry by (rule loop_cfg_done [OF eq' sub' loop' below' a' n'])
  show "answer_shape (loop_result (loop_cfg N ?c N)) = Inr (Some (SInt (Fin 0)))"
    unfolding entry by (rule loop_cfg_done [OF eq' sub' loop' below' a' n'])
  have "(tail_step (Suc (Suc z)))\<^sup>*\<^sup>* (loop_cfg N ?c 0) (loop_cfg N ?c N)"
    using steps by (intro steps_chain) blast
  then have "(tail_step (Suc (Suc z)))\<^sup>*\<^sup>* ?c (loop_cfg N ?c N)" by simp
  then have "(tail_step (Suc (Suc z)))\<^sup>*\<^sup>*
        (Obj i (SList [Obj j (SSym ''loop''), Obj k (SInt (Fin (int N)))]), cenv, st) (loop_cfg N ?c N)"
    using loop_call_enters [OF loop, of z i j k "Fin (int N)"]
    by (rule converse_rtranclp_into_rtranclp [rotated])
  then show "returns (Suc (Suc z)) (Obj i (SList [Obj j (SSym ''loop''), Obj k (SInt (Fin (int N)))]), cenv, st)
           (loop_result (loop_cfg N ?c N))"
    using fin by (rule tail_steps_returns)
qed

lemma steps_returns:
  assumes "\<forall>j<M. (tail_step s)\<^sup>+\<^sup>+ (cs j) (cs (Suc j))" and "returns s (cs M) r"
  shows "returns s (cs 0) r"
proof -
  have "(tail_step s)\<^sup>*\<^sup>* (cs 0) (cs M)"
    using assms(1) by (intro steps_chain) blast
  then show ?thesis using assms(2) by (rule tail_steps_returns)
qed

text \<open>
  C2.  (1) Applying a closure consumes no room on the host stack: once the head and
  the arguments are evaluated, the loop continues on the body of the closure in the
  new frame with the room it had.  (2) Whatever the program, a run made of any number
  of passes that continue (through \<^verbatim>\<open>if\<close>, \<^verbatim>\<open>do\<close>, \<^verbatim>\<open>let*\<close> and applications of closures)
  returns what its last configuration returns, with the same room, and the other way
  round: the first configuration fails for lack of stack exactly when the last one
  does.  (3) Hence \<open>M\<close> iterations of a closure, each a chain of such passes from the
  start of the body to its next start, need the room of the last iteration alone,
  for every \<open>M\<close>.  (4) For the closure \<^verbatim>\<open>loop\<close> above and every \<open>N\<close> up to \<open>2^53\<close>, where the
  subtraction is exact: \<^verbatim>\<open>(loop N)\<close> returns \<open>0\<close> within \<open>4 * N + 4\<close> passes with room for
  two nested activations; its application is a continuing pass to the body, each of
  the \<open>N\<close> iterations is a chain of continuing passes, and the last configuration
  returns the zero bound to \<open>n\<close>.
\<close>

theorem tail_call_bounded_stack:
  "(value_of st hx = Inr hv
      \<and> \<not> strict_eq hv (JStr ''def!'') \<and> \<not> strict_eq hv (JStr ''let*'')
      \<and> \<not> strict_eq hv (JStr ''do'') \<and> \<not> strict_eq hv (JStr ''if'')
      \<and> \<not> strict_eq hv (JStr ''fn*'')
      \<and> eval_ast (eval_mal n) s (Obj l (SList (hx # as))) env st
           = Inr (Obj r (SList (Obj c (SFn (Closure fenv (Obj q (SList ps)) body)) # args)), st')
      \<and> sym_names ps = Inr binds
    \<longrightarrow> eval_mal (Suc n) s (Obj l (SList (hx # as))) env st
         = eval_mal n s body (next_id st' # fenv)
             (st'\<lparr>frames := (frames st')(next_id st' := bind_params binds args Map.empty),
                   next_id := next_id st' + 1\<rparr>))
   \<and> (rtranclp (tail_step room) cfg cfg' \<and> returns room cfg' res \<longrightarrow> returns room cfg res)
   \<and> (rtranclp (tail_step room) cfg cfg' \<and> returns room cfg res \<longrightarrow> returns room cfg' res)
   \<and> ((\<forall>m<M. tranclp (tail_step room) (cs m) (cs (Suc m))) \<and> returns room (cs M) res
        \<longrightarrow> returns room (cs 0) res)
   \<and> (env_get sg genv ''='' = Inr (Obj e (SFn (Native ''='')))
      \<and> env_get sg genv ''-'' = Inr (Obj d (SFn (Native ''-'')))
      \<and> env_get sg genv ''loop''
           = Inr (Obj g (SFn (Closure genv (Obj u (SList [Obj p (SSym ''n'')])) (loop_body b))))
      \<and> (\<forall>a\<in>set genv. a < next_id sg)
      \<and> N \<le> 2 ^ 53
    \<longrightarrow> answer_shape
           (eval_mal (4 * N + 4 + x) (Suc (Suc z))
              (Obj i (SList [Obj j (SSym ''loop''), Obj k (SInt (Fin (int N)))])) genv sg)
         = Inr (Some (SInt (Fin 0)))
       \<and> tail_step (Suc (Suc z))
            (Obj i (SList [Obj j (SSym ''loop''), Obj k (SInt (Fin (int N)))]), genv, sg)
            (loop_entry b genv (Obj k (SInt (Fin (int N)))) sg)
       \<and> (\<forall>m<N. tranclp (tail_step (Suc (Suc z)))
                    (loop_cfg N (loop_entry b genv (Obj k (SInt (Fin (int N)))) sg) m)
                    (loop_cfg N (loop_entry b genv (Obj k (SInt (Fin (int N)))) sg) (Suc m)))
       \<and> returns (Suc (Suc z)) (loop_cfg N (loop_entry b genv (Obj k (SInt (Fin (int N)))) sg) N)
            (loop_result (loop_cfg N (loop_entry b genv (Obj k (SInt (Fin (int N)))) sg) N))
       \<and> answer_shape (loop_result (loop_cfg N (loop_entry b genv (Obj k (SInt (Fin (int N)))) sg) N))
            = Inr (Some (SInt (Fin 0)))
       \<and> returns (Suc (Suc z))
            (Obj i (SList [Obj j (SSym ''loop''), Obj k (SInt (Fin (int N)))]), genv, sg)
            (loop_result (loop_cfg N (loop_entry b genv (Obj k (SInt (Fin (int N)))) sg) N)))"
proof (intro conjI impI)
  assume "value_of st hx = Inr hv
      \<and> \<not> strict_eq hv (JStr ''def!'') \<and> \<not> strict_eq hv (JStr ''let*'')
      \<and> \<not> strict_eq hv (JStr ''do'') \<and> \<not> strict_eq hv (JStr ''if'')
      \<and> \<not> strict_eq hv (JStr ''fn*'')
      \<and> eval_ast (eval_mal n) s (Obj l (SList (hx # as))) env st
           = Inr (Obj r (SList (Obj c (SFn (Closure fenv (Obj q (SList ps)) body)) # args)), st')
      \<and> sym_names ps = Inr binds"
  then show "eval_mal (Suc n) s (Obj l (SList (hx # as))) env st
         = eval_mal n s body (next_id st' # fenv)
             (st'\<lparr>frames := (frames st')(next_id st' := bind_params binds args Map.empty),
                   next_id := next_id st' + 1\<rparr>)"
    by (intro closure_call_continues) blast+
next
  assume "rtranclp (tail_step room) cfg cfg' \<and> returns room cfg' res"
  then show "returns room cfg res"
    by (blast intro: tail_steps_returns)
next
  assume "rtranclp (tail_step room) cfg cfg' \<and> returns room cfg res"
  then show "returns room cfg' res"
    by (blast intro: returns_back)
next
  assume "(\<forall>m<M. tranclp (tail_step room) (cs m) (cs (Suc m))) \<and> returns room (cs M) res"
  then show "returns room (cs 0) res"
    by (blast intro: steps_returns)
next
  assume h: "env_get sg genv ''='' = Inr (Obj e (SFn (Native ''='')))
      \<and> env_get sg genv ''-'' = Inr (Obj d (SFn (Native ''-'')))
      \<and> env_get sg genv ''loop''
           = Inr (Obj g (SFn (Closure genv (Obj u (SList [Obj p (SSym ''n'')])) (loop_body b))))
      \<and> (\<forall>a\<in>set genv. a < next_id sg)
      \<and> N \<le> 2 ^ 53"
  then have eq: "env_get sg genv ''='' = Inr (Obj e (SFn (Native ''='')))"
    and sub: "env_get sg genv ''-'' = Inr (Obj d (SFn (Native ''-'')))"
    and loop: "env_get sg genv ''loop''
           = Inr (Obj g (SFn (Closure genv (Obj u (SList [Obj p (SSym ''n'')])) (loop_body b))))"
    and below: "\<forall>a\<in>set genv. a < next_id sg"
    and Nb: "N \<le> 2 ^ 53"
    by blast+
  show "answer_shape
           (eval_mal (4 * N + 4 + x) (Suc (Suc z))
              (Obj i (SList [Obj j (SSym ''loop''), Obj k (SInt (Fin (int N)))])) genv sg)
         = Inr (Some (SInt (Fin 0)))"
    by (rule loop_call_runs [OF eq sub loop below Nb])
  show "tail_step (Suc (Suc z))
            (Obj i (SList [Obj j (SSym ''loop''), Obj k (SInt (Fin (int N)))]), genv, sg)
            (loop_entry b genv (Obj k (SInt (Fin (int N)))) sg)"
    by (rule loop_call_enters [OF loop])
  show "\<forall>m<N. tranclp (tail_step (Suc (Suc z)))
                    (loop_cfg N (loop_entry b genv (Obj k (SInt (Fin (int N)))) sg) m)
                    (loop_cfg N (loop_entry b genv (Obj k (SInt (Fin (int N)))) sg) (Suc m))"
    by (rule loop_run_chain [OF eq sub loop below Nb])
  show "returns (Suc (Suc z)) (loop_cfg N (loop_entry b genv (Obj k (SInt (Fin (int N)))) sg) N)
            (loop_result (loop_cfg N (loop_entry b genv (Obj k (SInt (Fin (int N)))) sg) N))"
    by (rule loop_run_chain [OF eq sub loop below Nb])
  show "answer_shape (loop_result (loop_cfg N (loop_entry b genv (Obj k (SInt (Fin (int N)))) sg) N))
            = Inr (Some (SInt (Fin 0)))"
    by (rule loop_run_chain [OF eq sub loop below Nb])
  show "returns (Suc (Suc z))
            (Obj i (SList [Obj j (SSym ''loop''), Obj k (SInt (Fin (int N)))]), genv, sg)
            (loop_result (loop_cfg N (loop_entry b genv (Obj k (SInt (Fin (int N)))) sg) N))"
    by (rule loop_run_chain [OF eq sub loop below Nb])
qed

text \<open>
  In the interactive environment with \<^verbatim>\<open>loop\<close> defined, \<^verbatim>\<open>(loop 100000)\<close> returns \<open>0\<close>
  with room for two nested activations: its application continues the loop on the
  body of the closure, the 100000 iterations that follow are continuing passes only,
  and the configuration they end in returns the zero bound to \<open>n\<close>.
\<close>

theorem tail_call_bounded_stack_witness:
  "fst loop_repl = [65, 0]
   \<and> fst loop_call = Obj 118 (SList [Obj 116 (SSym ''loop''), Obj 117 (SInt (Fin 100000))])
   \<and> next_id (snd loop_call) = 119
   \<and> env_get (snd loop_call) [65, 0] ''='' = Inr (Obj 6 (SFn (Native ''='')))
   \<and> env_get (snd loop_call) [65, 0] ''-'' = Inr (Obj 3 (SFn (Native ''-'')))
   \<and> env_get (snd loop_call) [65, 0] ''loop''
        = Inr (Obj 115 (SFn (Closure [65, 0] (Obj 91 (SList [Obj 90 (SSym ''n'')])) (loop_body 92))))
   \<and> answer_shape (eval_mal 400004 2 (fst loop_call) [65, 0] (snd loop_call))
        = Inr (Some (SInt (Fin 0)))
   \<and> eval_mal 2 2 (fst loop_call) [65, 0] (snd loop_call)
        = eval_mal 1 2 (loop_body 92) [120, 65, 0]
            ((snd loop_call)\<lparr>frames := (frames (snd loop_call))
                                 (120 := [''n'' \<mapsto> Obj 117 (SInt (Fin 100000))]),
                              next_id := 121\<rparr>)
   \<and> loop_entry 92 [65, 0] (Obj 117 (SInt (Fin 100000))) (snd loop_call)
        = (loop_body 92, [120, 65, 0],
           (snd loop_call)\<lparr>frames := (frames (snd loop_call))
                                (120 := [''n'' \<mapsto> Obj 117 (SInt (Fin 100000))]),
                             next_id := 121\<rparr>)
   \<and> tail_step 2 (fst loop_call, [65, 0], snd loop_call)
        (loop_entry 92 [65, 0] (Obj 117 (SInt (Fin 100000))) (snd loop_call))
   \<and> rtranclp (tail_step 2) (fst loop_call, [65, 0], snd loop_call)
        (loop_cfg 100000 (loop_entry 92 [65, 0] (Obj 117 (SInt (Fin 100000))) (snd loop_call)) 100000)
   \<and> returns 2
        (loop_cfg 100000 (loop_entry 92 [65, 0] (Obj 117 (SInt (Fin 100000))) (snd loop_call)) 100000)
        (loop_result
           (loop_cfg 100000 (loop_entry 92 [65, 0] (Obj 117 (SInt (Fin 100000))) (snd loop_call)) 100000))
   \<and> answer_shape
        (loop_result
           (loop_cfg 100000 (loop_entry 92 [65, 0] (Obj 117 (SInt (Fin 100000))) (snd loop_call)) 100000))
        = Inr (Some (SInt (Fin 0)))
   \<and> returns 2 (loop_entry 92 [65, 0] (Obj 117 (SInt (Fin 100000))) (snd loop_call))
        (loop_result
           (loop_cfg 100000 (loop_entry 92 [65, 0] (Obj 117 (SInt (Fin 100000))) (snd loop_call)) 100000))
   \<and> returns 2 (fst loop_call, [65, 0], snd loop_call)
        (loop_result
           (loop_cfg 100000 (loop_entry 92 [65, 0] (Obj 117 (SInt (Fin 100000))) (snd loop_call)) 100000))"
proof -
  from loop_repl_summary obtain F where
    r: "loop_repl = ([65, 0], \<lparr>frames = F, cells = (\<lambda>a. Undefined), next_id = 116\<rparr>)"
    and l: "F 65 ''loop'' = Some (Obj 115 (SFn (Closure [65, 0] (Obj 91 (SList [Obj 90 (SSym ''n'')])) (loop_body 92))))"
    and f: "F 65 ''='' = None" "F 65 ''-'' = None"
      "F 0 ''='' = Some (Obj 6 (SFn (Native ''='')))" "F 0 ''-'' = Some (Obj 3 (SFn (Native ''-'')))"
    by blast
  let ?st = "\<lparr>frames = F, cells = (\<lambda>a. Undefined), next_id = 119\<rparr>"
  let ?ast = "Obj 118 (SList [Obj 116 (SSym ''loop''), Obj 117 (SInt (Fin 100000))])"
  let ?c = "(?ast, [65, 0], ?st)"
  let ?e = "loop_entry 92 [65, 0] (Obj 117 (SInt (Fin 100000))) ?st"
  let ?z = "loop_cfg 100000 ?e 100000"
  have c: "loop_call = (?ast, ?st)"
    by (simp add: loop_call_def r alloc_def)
  have g1: "env_get ?st [65, 0] ''='' = Inr (Obj 6 (SFn (Native ''='')))"
    and g2: "env_get ?st [65, 0] ''-'' = Inr (Obj 3 (SFn (Native ''-'')))"
    and g3: "env_get ?st [65, 0] ''loop''
        = Inr (Obj 115 (SFn (Closure [65, 0] (Obj 91 (SList [Obj 90 (SSym ''n'')])) (loop_body 92))))"
    using l f by simp_all
  have below: "\<forall>a\<in>set [65, 0]. a < next_id ?st" by simp
  have small: "(100000::nat) \<le> 2 ^ 53" by simp
  have ev: "eval_ast (eval_mal (Suc 0)) (Suc (Suc 0)) ?ast [65, 0] ?st
      = Inr (Obj 119 (SList [Obj 115 (SFn (Closure [65, 0] (Obj 91 (SList [Obj 90 (SSym ''n'')])) (loop_body 92))),
                             Obj 117 (SInt (Fin 100000))]),
             ?st\<lparr>next_id := 120\<rparr>)"
    using l f by (simp add: step_simps)
  have hd: "value_of ?st (Obj 116 (SSym ''loop'')) = Inr (JStr ''loop'')" by simp
  have nm: "sym_names [Obj 90 (SSym ''n'')] = Inr [''n'']" by (simp add: bnd_def)
  have en: "?e = (loop_body 92, [120, 65, 0],
                  ?st\<lparr>frames := F(120 := [''n'' \<mapsto> Obj 117 (SInt (Fin 100000))]), next_id := 121\<rparr>)"
    by (simp add: loop_entry_def)
  note main = tail_call_bounded_stack [where st = ?st and hx = "Obj 116 (SSym ''loop'')"
      and hv = "JStr ''loop''" and n = "Suc 0" and s = "Suc (Suc 0)" and l = 118
      and as = "[Obj 117 (SInt (Fin 100000))]" and env = "[65, 0]" and r = 119 and c = 115
      and fenv = "[65, 0]" and q = 91 and ps = "[Obj 90 (SSym ''n'')]" and body = "loop_body 92"
      and args = "[Obj 117 (SInt (Fin 100000))]" and st' = "?st\<lparr>next_id := 120\<rparr>"
      and binds = "[''n'']"
      and room = "Suc (Suc 0)" and cfg = ?c and cfg' = ?z and res = "loop_result ?z"
      and cs = "loop_cfg 100000 ?e" and M = 100000
      and sg = ?st and genv = "[65, 0]" and e = 6 and d = 3 and g = 115 and u = 91 and p = 90
      and b = 92 and N = 100000 and x = 0 and z = 0 and i = 118 and j = 116 and k = 117]
  from main [THEN conjunct1] hd ev nm
  have m1: "eval_mal (Suc (Suc 0)) (Suc (Suc 0)) ?ast [65, 0] ?st
      = eval_mal (Suc 0) (Suc (Suc 0)) (loop_body 92) [120, 65, 0]
          (?st\<lparr>frames := F(120 := [''n'' \<mapsto> Obj 117 (SInt (Fin 100000))]), next_id := 121\<rparr>)"
    by (simp add: idx_def)
  from main [THEN conjunct2, THEN conjunct2, THEN conjunct2, THEN conjunct2] g1 g2 g3 below small
  have m3: "answer_shape (eval_mal 400004 (Suc (Suc 0)) ?ast [65, 0] ?st) = Inr (Some (SInt (Fin 0)))"
    and enter: "tail_step (Suc (Suc 0)) ?c ?e"
    and steps: "\<forall>m<100000. tranclp (tail_step (Suc (Suc 0))) (loop_cfg 100000 ?e m) (loop_cfg 100000 ?e (Suc m))"
    and fin: "returns (Suc (Suc 0)) ?z (loop_result ?z)"
    and ans: "answer_shape (loop_result ?z) = Inr (Some (SInt (Fin 0)))"
    by simp_all
  have "rtranclp (tail_step (Suc (Suc 0))) (loop_cfg 100000 ?e 0) ?z"
    using steps by (intro steps_chain) blast
  then have "rtranclp (tail_step (Suc (Suc 0))) ?e ?z" by simp
  with enter have chain: "rtranclp (tail_step (Suc (Suc 0))) ?c ?z"
    by (rule converse_rtranclp_into_rtranclp)
  from main [THEN conjunct2, THEN conjunct1] chain fin
  have ret: "returns (Suc (Suc 0)) ?c (loop_result ?z)"
    by blast
  from main [THEN conjunct2, THEN conjunct2, THEN conjunct2, THEN conjunct1] steps fin
  have "returns (Suc (Suc 0)) (loop_cfg 100000 ?e 0) (loop_result ?z)"
    by blast
  then have ret0: "returns (Suc (Suc 0)) ?e (loop_result ?z)" by simp
  from main [THEN conjunct2, THEN conjunct2, THEN conjunct1] chain ret
  have "returns (Suc (Suc 0)) ?z (loop_result ?z)"
    by blast
  show ?thesis
    unfolding c r fst_conv snd_conv two_eq [symmetric] One_nat_def
    using m1 m3 g1 g2 g3 en enter chain fin ans ret0 ret by (intro conjI) simp_all
qed

text \<open>
  The room does matter to a call that is not in tail position: with
  \<^verbatim>\<open>(def! sum (fn* (n) (if (= n 0) 0 (+ n (sum (- n 1))))))\<close>, the call \<^verbatim>\<open>(sum 1)\<close> fails
  for lack of stack where \<^verbatim>\<open>(loop N)\<close> succeeds, and returns \<open>1\<close> with room for one more
  activation.
\<close>

lemma non_tail_call_needs_stack:
  "(case read_form sum_form (snd repl) of
      (def, st) \<Rightarrow>
        (case eval_mal 2 1 def (fst repl) st of
           Inl e \<Rightarrow> (Inl e, Inl e)
         | Inr (v, st') \<Rightarrow>
             (case read_form (FList [FSym ''sum'', FInt 1]) st' of
                (ast, st'') \<Rightarrow>
                  (answer_shape (eval_mal 9 2 ast (fst repl) st''),
                   answer_shape (eval_mal 9 3 ast (fst repl) st'')))))
   = (Inl StackOverflow, Inr (Some (SInt (Fin 1))))"
  by (simp add: repl_def build_env_def core_env_def eval_unfold empty_store_def ns_names_def
      not_form_def load_file_form_def sum_form_def ns_def ns_eq_def ns_sub_def ns_add_def
      arith_def js_sub_fin js_add_fin is_seq_def
      cong: prod.case_cong_weak)

end
